theory Spec2Isabelle
  imports Complex_Main "HOL-Library.Word"
begin

unbundle bit_operations_syntax

section \<open>core: the block gas pool\<close>

text \<open>
  \<^verbatim>\<open>type GasPool uint64\<close>. A method on \<^verbatim>\<open>*GasPool\<close> mutates the pool in place;
  the model returns the error value (\<open>None\<close> is Go's \<^verbatim>\<open>nil\<close>) together with the pool
  after the call.
\<close>

type_synonym uint64 = "64 word"
type_synonym GasPool = "64 word"

datatype core_error = ErrGasLimitReached

definition SubGas :: "GasPool \<Rightarrow> uint64 \<Rightarrow> core_error option \<times> GasPool" where
  "SubGas gp amount =
     (if gp < amount then (Some ErrGasLimitReached, gp)
      else (None, gp - amount))"

definition Gas :: "GasPool \<Rightarrow> uint64" where
  "Gas gp = gp"

section \<open>trie: node variants and cache flags\<close>

type_synonym uint16 = "16 word"
type_synonym byte = "8 word"

text \<open>\<^verbatim>\<open>hashNode\<close> and \<^verbatim>\<open>valueNode\<close> are byte slices; a nil interface value is \<open>NilNode\<close>.\<close>

record nodeFlag =
  hash :: "byte list"
  gen :: uint16
  dirty :: bool

datatype node =
    NilNode
  | FullNode "node list" nodeFlag
  | ShortNode "byte list" node nodeFlag
  | HashNode "byte list"
  | ValueNode "byte list"

definition nodeFlag_canUnload :: "nodeFlag \<Rightarrow> uint16 \<Rightarrow> uint16 \<Rightarrow> bool" where
  "nodeFlag_canUnload n cachegen cachelimit \<longleftrightarrow> \<not> dirty n \<and> cachegen - gen n \<ge> cachelimit"

text \<open>
  The interface method \<^verbatim>\<open>canUnload\<close>, dispatched on the dynamic type. Calling a method
  on a nil interface panics in Go, which is the \<open>None\<close> result.
\<close>

fun canUnload :: "node \<Rightarrow> uint16 \<Rightarrow> uint16 \<Rightarrow> bool option" where
  "canUnload (FullNode cs fl) g l = Some (nodeFlag_canUnload fl g l)"
| "canUnload (ShortNode k v fl) g l = Some (nodeFlag_canUnload fl g l)"
| "canUnload (HashNode h) g l = Some False"
| "canUnload (ValueNode v) g l = Some False"
| "canUnload NilNode g l = None"

section \<open>trie: decoding a child reference\<close>

text \<open>
  Modelled from the spec: \<^verbatim>\<open>rlp.Split\<close>, of the \<^verbatim>\<open>rlp\<close> package, which is not among the
  sources. The spec (4.1) gives the length-prefixed forms: a single byte below \<open>0x80\<close>
  stands for itself; a string of at most 55 bytes has a one-byte prefix \<open>0x80 + length\<close>;
  a longer string has the prefix \<open>0xb7 + n\<close> followed by the \<open>n\<close> bytes of its length;
  lists mirror this from \<open>0xc0\<close> and \<open>0xf7\<close>. \<open>split(buf) \<rightarrow> (Kind, payload, rest)\<close> fails
  on truncation, on a non-canonical form and on an oversized length.
\<close>

datatype Kind = Byte | String | List

datatype rlp_error = ErrUnexpectedEOF | ErrCanonSize | ErrValueTooLarge

definition be_nat :: "byte list \<Rightarrow> nat" where
  "be_nat bs = foldl (\<lambda>a b. a * 256 + unat b) 0 bs"

definition readSize :: "byte list \<Rightarrow> nat \<Rightarrow> rlp_error + nat" where
  "readSize bs slen =
     (if length bs < slen then Inl ErrUnexpectedEOF
      else if slen = 0 \<or> hd bs = 0 then Inl ErrCanonSize
      else if be_nat (take slen bs) < 56 then Inl ErrCanonSize
      else Inr (be_nat (take slen bs)))"

definition rlp_Split :: "byte list \<Rightarrow> rlp_error + (Kind \<times> byte list \<times> byte list)" where
  "rlp_Split buf =
     (case buf of
        [] \<Rightarrow> Inl ErrUnexpectedEOF
      | b # bs \<Rightarrow>
          if b < 0x80 then Inr (Byte, [b], bs)
          else if b < 0xB8 then
            (let n = unat b - 0x80
             in if n = 1 \<and> bs \<noteq> [] \<and> hd bs < 0x80 then Inl ErrCanonSize
                else if n > length bs then Inl ErrValueTooLarge
                else Inr (String, take n bs, drop n bs))
          else if b < 0xC0 then
            (let slen = unat b - 0xB7
             in case readSize bs slen of
                  Inl err \<Rightarrow> Inl err
                | Inr n \<Rightarrow>
                    if n > length bs - slen then Inl ErrValueTooLarge
                    else Inr (String, take n (drop slen bs), drop (slen + n) bs))
          else if b < 0xF8 then
            (let n = unat b - 0xC0
             in if n > length bs then Inl ErrValueTooLarge
                else Inr (List, take n bs, drop n bs))
          else
            (let slen = unat b - 0xF7
             in case readSize bs slen of
                  Inl err \<Rightarrow> Inl err
                | Inr n \<Rightarrow>
                    if n > length bs - slen then Inl ErrValueTooLarge
                    else Inr (List, take n (drop slen bs), drop (slen + n) bs)))"

text \<open>
  \<^verbatim>\<open>decodeRef\<close>, from \<^verbatim>\<open>trie/node.go\<close>. The splitter and \<^verbatim>\<open>decodeNode\<close> (which needs
  further functions of the \<^verbatim>\<open>rlp\<close> package and the key encoding) are parameters, so
  every statement about \<open>decodeRef\<close> holds for any of them. The result is the triple
  \<^verbatim>\<open>(node, []byte, error)\<close> of the source, a nil slice being the empty list.
\<close>

datatype trie_error =
    RlpError rlp_error
  | OversizedEmbeddedNode int
  | InvalidStringSize nat
  | NodeError string

definition hashLen :: int where "hashLen = 32"

definition decodeRef ::
  "(byte list \<Rightarrow> rlp_error + (Kind \<times> byte list \<times> byte list)) \<Rightarrow>
   (byte list \<Rightarrow> byte list \<Rightarrow> uint16 \<Rightarrow> node \<times> trie_error option) \<Rightarrow>
   byte list \<Rightarrow> uint16 \<Rightarrow> node \<times> byte list \<times> trie_error option" where
  "decodeRef split decodeNode buf cachegen =
     (case split buf of
        Inl err \<Rightarrow> (NilNode, buf, Some (RlpError err))
      | Inr (kind, val, rest) \<Rightarrow>
          if kind = List then
            (let size = int (length buf) - int (length rest)
             in if size > hashLen then (NilNode, buf, Some (OversizedEmbeddedNode size))
                else (let (n, err) = decodeNode [] buf cachegen in (n, rest, err)))
          else if kind = String \<and> length val = 0 then (NilNode, rest, None)
          else if kind = String \<and> length val = 32 then (HashNode val, rest, None)
          else (NilNode, [], Some (InvalidStringSize (length val))))"

text \<open>
  A leaf node whose encoding is exactly 32 bytes long: the list header \<open>0xdf\<close> (payload
  of 31 bytes), the compact key \<open>0x20\<close> (leaf, empty path) and a 29-byte value.
\<close>

definition leaf32 :: "byte list" where
  "leaf32 = 0xDF # 0x20 # 0x9D # replicate 29 0x01"

section \<open>downloader: constants, errors and shared types\<close>

text \<open>The tunables of the \<^verbatim>\<open>var\<close> block, at their declared values.\<close>

definition MaxHeaderFetch :: int where "MaxHeaderFetch = 192"
definition maxQueuedHeaders :: int where "maxQueuedHeaders = 32 * 1024"
definition maxHeadersProcess :: nat where "maxHeadersProcess = 2048"
definition fsHeaderCheckFrequency :: int where "fsHeaderCheckFrequency = 100"
definition fsHeaderSafetyNet :: nat where "fsHeaderSafetyNet = 2048"
definition fsHeaderForceVerify :: nat where "fsHeaderForceVerify = 24"
definition fsMinFullBlocks :: nat where "fsMinFullBlocks = 64"

text \<open>
  \<^verbatim>\<open>MaxForkAncestry = 3 * params.EpochDuration\<close>. The \<^verbatim>\<open>params\<close> package is not part of the
  sources at hand, so the epoch length is a parameter; the product is a \<^verbatim>\<open>uint64\<close>.
\<close>

definition MaxForkAncestry :: "uint64 \<Rightarrow> uint64" where
  "MaxForkAncestry epochDuration = 3 * epochDuration"

datatype SyncMode = FullSync | FastSync | LightSync

datatype dl_error =
    ErrBusy | ErrUnknownPeer | ErrBadPeer | ErrStallingPeer | ErrNoPeers | ErrTimeout
  | ErrEmptyHeaderSet | ErrPeersUnavailable | ErrInvalidAncestor | ErrInvalidChain
  | ErrInvalidBlock | ErrInvalidBody | ErrInvalidReceipt | ErrCancelBlockFetch
  | ErrCancelHeaderFetch | ErrCancelBodyFetch | ErrCancelReceiptFetch | ErrCancelStateFetch
  | ErrCancelHeaderProcessing | ErrCancelContentProcessing | ErrNoSyncActive | ErrTooOld

text \<open>
  A goroutine either is still waiting when the scripted events run out, panics, or returns.
\<close>

datatype 'a outcome = Blocked | Panicked | Returned 'a

type_synonym Hash32 = "256 word"

text \<open>
  Of a \<^verbatim>\<open>types.Header\<close> the downloader reads the number (a \<^verbatim>\<open>*big.Int\<close>) and the
  hash; \<open>Hash\<close> stands for the value of \<^verbatim>\<open>Hash()\<close>. \<^verbatim>\<open>Uint64()\<close> takes the low 64 bits of
  the magnitude, \<^verbatim>\<open>Int64()\<close> the same bits with the sign applied, which is the low 64 bits
  of the number in two's complement.
\<close>

record Header =
  Number :: int
  Hash :: Hash32

definition Uint64 :: "int \<Rightarrow> uint64" where
  "Uint64 x = word_of_int \<bar>x\<bar>"

definition Int64 :: "int \<Rightarrow> uint64" where
  "Int64 x = word_of_int x"

text \<open>Concrete headers for running the model: header \<open>n\<close> has number \<open>n\<close> and hash \<open>n\<close>.\<close>

definition hdr :: "int \<Rightarrow> Header" where
  "hdr n = \<lparr>Number = n, Hash = word_of_int n\<rparr>"

definition hdrs :: "nat \<Rightarrow> nat \<Rightarrow> Header list" where
  "hdrs i j = map (\<lambda>n. hdr (int n)) [i..<j]"

subsection \<open>syncWithPeer: pivot and origin (the block after findAncestor)\<close>

text \<open>
  \<^verbatim>\<open>
  pivot := uint64(0)
  if d.mode == FastSync {
      if height <= uint64(fsMinFullBlocks) { origin = 0 }
      else { pivot = height - uint64(fsMinFullBlocks)
             if pivot <= origin { origin = pivot - 1 } } }
  d.committed = 1
  if d.mode == FastSync && pivot != 0 { d.committed = 0 }
  \<close>
  The result is \<open>(pivot, origin, committed)\<close>.
\<close>

definition syncWithPeer_pivot :: "SyncMode \<Rightarrow> uint64 \<Rightarrow> uint64 \<Rightarrow> uint64 \<times> uint64 \<times> int" where
  "syncWithPeer_pivot mode height origin =
     (let (pivot, origin') =
            (if mode = FastSync then
               (if height \<le> of_nat fsMinFullBlocks then (0, 0)
                else (let pivot = height - of_nat fsMinFullBlocks
                      in if pivot \<le> origin then (pivot, pivot - 1) else (pivot, origin)))
             else (0, origin));
          committed = (if mode = FastSync \<and> pivot \<noteq> 0 then 0 else 1)
      in (pivot, origin', committed))"

subsection \<open>findAncestor\<close>

text \<open>
  What \<^verbatim>\<open>findAncestor\<close> reads of the local chain: the three head numbers and the lookups
  \<^verbatim>\<open>HasBlock\<close>, \<^verbatim>\<open>HasHeader\<close> and \<^verbatim>\<open>GetHeaderByHash\<close> (which may return nil).
\<close>

record chain_view =
  currentHeaderNumber :: uint64
  currentBlockNumber :: uint64
  currentFastBlockNumber :: uint64
  hasBlock :: "Hash32 \<Rightarrow> uint64 \<Rightarrow> bool"
  lcHasHeader :: "Hash32 \<Rightarrow> uint64 \<Rightarrow> bool"
  getHeaderByHash :: "Hash32 \<Rightarrow> Header option"

text \<open>
  Each pass through a \<^verbatim>\<open>select\<close> takes the next scripted event: the cancel channel, a
  header packet with its peer id, the timeout, or a stray body or receipt packet. The
  requests sent to the peer return nothing to the function and are not part of the model.
\<close>

datatype net_event = NetCancel | NetHeaders string "Header list" | NetTimeout | NetBody | NetReceipt

text \<open>
  \<^verbatim>\<open>ceil\<close>: the local head for the sync mode. \<^verbatim>\<open>floor\<close> is an \<^verbatim>\<open>int64\<close>, here a 64-bit
  word read as two's complement (\<open>word_sle\<close>, \<open>word_sless\<close> compare signed):
  \<^verbatim>\<open>
  floor, ceil := int64(-1), d.lightchain.CurrentHeader().Number.Uint64()
  if d.mode == FullSync { ceil = d.blockchain.CurrentBlock().NumberU64() }
  else if d.mode == FastSync { ceil = d.blockchain.CurrentFastBlock().NumberU64() }
  if ceil >= MaxForkAncestry { floor = int64(ceil - MaxForkAncestry) }
  \<close>
\<close>

definition localHead :: "chain_view \<Rightarrow> SyncMode \<Rightarrow> uint64" where
  "localHead c mode =
     (if mode = FullSync then currentBlockNumber c
      else if mode = FastSync then currentFastBlockNumber c
      else currentHeaderNumber c)"

definition ancestorFloor :: "uint64 \<Rightarrow> uint64 \<Rightarrow> uint64" where
  "ancestorFloor epochDuration ceil =
     (if ceil \<ge> MaxForkAncestry epochDuration then ceil - MaxForkAncestry epochDuration else - 1)"

definition requestHead :: "uint64 \<Rightarrow> uint64 \<Rightarrow> uint64" where
  "requestHead ceil height = (if ceil > height then height else ceil)"

definition requestFrom :: "uint64 \<Rightarrow> uint64" where
  "requestFrom head =
     (let from = head - word_of_int MaxHeaderFetch
      in if word_sless from 0 then 0 else from)"

definition headLimit :: int where
  "headLimit = 2 * MaxHeaderFetch div 16"

definition known :: "chain_view \<Rightarrow> SyncMode \<Rightarrow> Header \<Rightarrow> bool" where
  "known c mode h \<longleftrightarrow>
     (mode = FullSync \<and> hasBlock c (Hash h) (Uint64 (Number h))) \<or>
     (mode \<noteq> FullSync \<and> lcHasHeader c (Hash h) (Uint64 (Number h)))"

text \<open>
  The reply must conform to the request:
  \<^verbatim>\<open>headers[i].Number.Int64() == from+int64(i)*16\<close> for every index.
\<close>

definition conforms :: "uint64 \<Rightarrow> Header list \<Rightarrow> bool" where
  "conforms from headers \<longleftrightarrow>
     (\<forall>i < length headers. Int64 (Number (headers ! i)) = from + of_nat i * 16)"

text \<open>
  The loop \<^verbatim>\<open>for i := len(headers) - 1; i >= 0; i--\<close>; the last argument is \<open>i + 1\<close>.
\<close>

datatype scan_result = ScanNone | ScanFound uint64 Hash32 | ScanLied

fun scanHeaders ::
  "chain_view \<Rightarrow> SyncMode \<Rightarrow> uint64 \<Rightarrow> uint64 \<Rightarrow> uint64 \<Rightarrow> Header list \<Rightarrow> nat \<Rightarrow> scan_result" where
  "scanHeaders c mode from ceil height headers 0 = ScanNone"
| "scanHeaders c mode from ceil height headers (Suc i) =
     (let h = headers ! i
      in if word_sless (Int64 (Number h)) from \<or> Uint64 (Number h) > ceil
         then scanHeaders c mode from ceil height headers i
         else if known c mode h then
           (if Uint64 (Number h) > height \<and> int i = headLimit - 1 then ScanLied
            else ScanFound (Uint64 (Number h)) (Hash h))
         else scanHeaders c mode from ceil height headers i)"

text \<open>
  The wait for the reply to the head request. It yields the error returned, or
  \<open>(number, hash)\<close> as the loop leaves them (both zero when no header is known), with
  the events not yet consumed.
\<close>

fun headFetch ::
  "chain_view \<Rightarrow> SyncMode \<Rightarrow> string \<Rightarrow> uint64 \<Rightarrow> uint64 \<Rightarrow> uint64 \<Rightarrow> net_event list \<Rightarrow>
   ((dl_error + uint64 \<times> Hash32) \<times> net_event list) outcome" where
  "headFetch c mode p from ceil height [] = Blocked"
| "headFetch c mode p from ceil height (ev # evs) =
     (case ev of
        NetCancel \<Rightarrow> Returned (Inl ErrCancelHeaderFetch, evs)
      | NetHeaders pid headers \<Rightarrow>
          if pid \<noteq> p then headFetch c mode p from ceil height evs
          else if length headers = 0 then Returned (Inl ErrEmptyHeaderSet, evs)
          else if \<not> conforms from headers then Returned (Inl ErrInvalidChain, evs)
          else (case scanHeaders c mode from ceil height headers (length headers) of
                  ScanLied \<Rightarrow> Returned (Inl ErrStallingPeer, evs)
                | ScanFound number h \<Rightarrow> Returned (Inr (number, h), evs)
                | ScanNone \<Rightarrow> Returned (Inr (0, 0), evs))
      | NetTimeout \<Rightarrow> Returned (Inl ErrTimeout, evs)
      | NetBody \<Rightarrow> headFetch c mode p from ceil height evs
      | NetReceipt \<Rightarrow> headFetch c mode p from ceil height evs)"

text \<open>
  The binary search. \<open>awaitReply\<close> is the inner loop \<^verbatim>\<open>for arrived := false; !arrived;\<close>
  for one \<open>check\<close>: it yields the new interval and the remaining events. \<open>searchLoop\<close> is
  the outer loop \<^verbatim>\<open>for start+1 < end\<close>; it ends because every reply consumes an event.
\<close>

fun awaitReply ::
  "chain_view \<Rightarrow> SyncMode \<Rightarrow> string \<Rightarrow> uint64 \<Rightarrow> uint64 \<Rightarrow> uint64 \<Rightarrow> net_event list \<Rightarrow>
   (dl_error + (uint64 \<times> uint64) \<times> net_event list) outcome" where
  "awaitReply c mode p start end' check [] = Blocked"
| "awaitReply c mode p start end' check (ev # evs) =
     (case ev of
        NetCancel \<Rightarrow> Returned (Inl ErrCancelHeaderFetch)
      | NetHeaders pid headers \<Rightarrow>
          if pid \<noteq> p then awaitReply c mode p start end' check evs
          else if length headers \<noteq> 1 then Returned (Inl ErrBadPeer)
          else if \<not> known c mode (hd headers) then Returned (Inr ((start, check), evs))
          else (case getHeaderByHash c (Hash (hd headers)) of
                  None \<Rightarrow> Panicked
                | Some header \<Rightarrow>
                    if Uint64 (Number header) \<noteq> check then Returned (Inl ErrBadPeer)
                    else Returned (Inr ((check, end'), evs)))
      | NetTimeout \<Rightarrow> Returned (Inl ErrTimeout)
      | NetBody \<Rightarrow> awaitReply c mode p start end' check evs
      | NetReceipt \<Rightarrow> awaitReply c mode p start end' check evs)"

lemma awaitReply_shorter:
  "awaitReply c mode p start end' check evs = Returned (Inr (iv, rest)) \<Longrightarrow>
   length rest < length evs"
  by (induction evs) (auto split: net_event.splits if_splits option.splits)

function searchLoop ::
  "chain_view \<Rightarrow> SyncMode \<Rightarrow> string \<Rightarrow> uint64 \<Rightarrow> uint64 \<Rightarrow> net_event list \<Rightarrow>
   (dl_error + uint64) outcome" where
  "searchLoop c mode p start end' evs =
     (if start + 1 < end' then
        (case awaitReply c mode p start end' ((start + end') div 2) evs of
           Blocked \<Rightarrow> Blocked
         | Panicked \<Rightarrow> Panicked
         | Returned (Inl err) \<Rightarrow> Returned (Inl err)
         | Returned (Inr ((start1, end1), rest)) \<Rightarrow> searchLoop c mode p start1 end1 rest)
      else Returned (Inr start))"
  by pat_completeness auto
termination
  by (relation "measure (\<lambda>(c, mode, p, start, end', evs). length evs)")
     (auto dest: awaitReply_shorter)

text \<open>
  \<^verbatim>\<open>findAncestor\<close>: the head fetch, then, when no header of the reply is known (the hash
  is still the zero hash), the binary search from \<^verbatim>\<open>max(0, floor)\<close> to \<^verbatim>\<open>head\<close>; either way
  the ancestor is checked against the floor before it is returned.
\<close>

definition searchStart :: "uint64 \<Rightarrow> uint64" where
  "searchStart floor' = (if word_sless 0 floor' then floor' else 0)"

definition checkFloor :: "uint64 \<Rightarrow> uint64 \<Rightarrow> dl_error + uint64" where
  "checkFloor floor' number =
     (if word_sle number floor' then Inl ErrInvalidAncestor else Inr number)"

definition findAncestor ::
  "uint64 \<Rightarrow> chain_view \<Rightarrow> SyncMode \<Rightarrow> string \<Rightarrow> uint64 \<Rightarrow> net_event list \<Rightarrow>
   (dl_error + uint64) outcome" where
  "findAncestor epochDuration c mode p height evs =
     (let ceil = localHead c mode;
          floor' = ancestorFloor epochDuration ceil;
          head = requestHead ceil height;
          from = requestFrom head
      in case headFetch c mode p from ceil height evs of
           Blocked \<Rightarrow> Blocked
         | Panicked \<Rightarrow> Panicked
         | Returned (Inl err, rest) \<Rightarrow> Returned (Inl err)
         | Returned (Inr (number, h), rest) \<Rightarrow>
             if h \<noteq> 0 then Returned (checkFloor floor' number)
             else
               (let start = searchStart floor'
                in case searchLoop c mode p start head rest of
                     Blocked \<Rightarrow> Blocked
                   | Panicked \<Rightarrow> Panicked
                   | Returned (Inl err) \<Rightarrow> Returned (Inl err)
                   | Returned (Inr start1) \<Rightarrow> Returned (checkFloor floor' start1)))"

text \<open>
  The floor as the specification words it, \<open>max(0, local_head - MaxForkAncestry)\<close>,
  over the integers.
\<close>

definition claimedFloor :: "uint64 \<Rightarrow> uint64 \<Rightarrow> int" where
  "claimedFloor ep ceil = max 0 (uint ceil - uint (MaxForkAncestry ep))"

text \<open>
  A local chain with head 100000 whose header \<open>n\<close> has hash \<open>n\<close>; \<open>reply from k\<close> is
  a peer's answer of \<open>k\<close> such headers spaced 16 apart; \<open>foreign\<close> headers are those of
  another chain (unknown hashes), and \<open>foreign_run\<close> is a peer answering the head
  request and every probe of the binary search with them.
\<close>

definition chain1 :: chain_view where
  "chain1 = \<lparr>currentHeaderNumber = 100000, currentBlockNumber = 100000,
             currentFastBlockNumber = 100000,
             hasBlock = (\<lambda>h n. h = ucast n \<and> n \<le> 100000),
             lcHasHeader = (\<lambda>h n. h = ucast n \<and> n \<le> 100000),
             getHeaderByHash = (\<lambda>h. if h \<le> 100000 then Some (hdr (uint h)) else None)\<rparr>"

definition reply :: "int \<Rightarrow> nat \<Rightarrow> Header list" where
  "reply from k = map (\<lambda>i. hdr (from + 16 * int i)) [0..<k]"

definition foreign :: "int \<Rightarrow> Header" where
  "foreign n = \<lparr>Number = n, Hash = word_of_int n + 1000000\<rparr>"

definition foreign_run :: "net_event list" where
  "foreign_run =
     NetHeaders ''peer'' (map (\<lambda>i. foreign (99808 + 16 * int i)) [0..<24]) #
     map (\<lambda>n. NetHeaders ''peer'' [foreign n])
       [55000, 32500, 21250, 15625, 12812, 11406, 10703, 10351, 10175, 10087, 10043, 10021,
        10010, 10005, 10002, 10001]"

subsection \<open>processHeaders\<close>

text \<open>
  The collaborators behind the \<^verbatim>\<open>LightChain\<close>, \<^verbatim>\<open>BlockChain\<close> and queue interfaces are
  not part of the function. The calls that change them are recorded in order; what they
  answer is given by an environment whose answers may depend on everything recorded so
  far and on the timer ticks that have passed.
\<close>

datatype call =
    InsertHeaderChain "Header list" int
  | Rollback "Hash32 list"
  | Schedule "Header list" uint64

record world =
  calls :: "call list"
  ticks :: nat
  syncStatsChainHeight :: uint64

record env =
  hasHeader :: "world \<Rightarrow> Hash32 \<Rightarrow> uint64 \<Rightarrow> bool"
  insertHeaderChain :: "world \<Rightarrow> Header list \<Rightarrow> int \<Rightarrow> int \<times> bool"
  currentBlockTd :: "world \<Rightarrow> int"
  currentHeaderTd :: "world \<Rightarrow> int"
  pendingBlocks :: "world \<Rightarrow> int"
  pendingReceipts :: "world \<Rightarrow> int"
  scheduleInserts :: "world \<Rightarrow> Header list \<Rightarrow> uint64 \<Rightarrow> nat"

definition record_call :: "call \<Rightarrow> world \<Rightarrow> world" where
  "record_call c w = w\<lparr>calls := calls w @ [c]\<rparr>"

text \<open>
  The verification frequency of a chunk:
  \<^verbatim>\<open>
  frequency := fsHeaderCheckFrequency
  if chunk[len(chunk)-1].Number.Uint64()+uint64(fsHeaderForceVerify) > pivot { frequency = 1 }
  \<close>
\<close>

definition chunkFrequency :: "Header list \<Rightarrow> uint64 \<Rightarrow> int" where
  "chunkFrequency chunk pivot =
     (if Uint64 (Number (last chunk)) + of_nat fsHeaderForceVerify > pivot then 1
      else fsHeaderCheckFrequency)"

text \<open>
  The header-only branch of the chunk loop (\<^verbatim>\<open>d.mode == FastSync || d.mode == LightSync\<close>):
  collect the unknown headers, insert the chunk, and on failure append the \<open>n\<close> headers
  already inserted to the rollback list, on success the unknown ones, trimming the list to
  its newest \<open>fsHeaderSafetyNet\<close> entries. \<^verbatim>\<open>insertHeaderChain\<close> answers \<open>(n, err \<noteq> nil)\<close>.
  \<^verbatim>\<open>chunk[:n]\<close> and \<^verbatim>\<open>chunk[n]\<close> (an argument of the log call) panic out of range.
  An \<open>n\<close> beyond the chunk's length is outside the contract of \<^verbatim>\<open>InsertHeaderChain\<close>; Go's
  slice expression is bounded by the capacity, so it may still reach into the rest of the
  batch before \<^verbatim>\<open>chunk[n]\<close> panics, whereas the model panics with the list as it was. No
  statement below is about that case.
  The result carries the rollback list and the world after the step.
\<close>

datatype chunk_result =
    ChunkOk "Header list" world
  | ChunkFail dl_error "Header list" world
  | ChunkPanic "Header list" world

definition insertChunk :: "env \<Rightarrow> world \<Rightarrow> Header list \<Rightarrow> Header list \<Rightarrow> uint64 \<Rightarrow> chunk_result" where
  "insertChunk e w rollback chunk pivot =
     (if chunk = [] then ChunkPanic rollback w
      else
        let unknown = filter (\<lambda>header. \<not> hasHeader e w (Hash header) (Uint64 (Number header))) chunk;
            frequency = chunkFrequency chunk pivot;
            (n, failed) = insertHeaderChain e w chunk frequency;
            w' = record_call (InsertHeaderChain chunk frequency) w
        in if failed then
             (if n > 0 \<and> n > int (length chunk) then ChunkPanic rollback w'
              else
                let rollback' = (if n > 0 then rollback @ take (nat n) chunk else rollback)
                in if n < 0 \<or> n \<ge> int (length chunk) then ChunkPanic rollback' w'
                   else ChunkFail ErrInvalidChain rollback' w')
           else
             let rollback' = rollback @ unknown
             in ChunkOk (if length rollback' > fsHeaderSafetyNet
                         then drop (length rollback' - fsHeaderSafetyNet) rollback'
                         else rollback') w')"

text \<open>
  The stall loop before scheduling: while the queue holds too many pending headers, wait
  for the one-second timer or the cancel channel. One scripted event per wait.
\<close>

datatype wait_event = WaitCancelled | WaitTick

datatype stall_result = StallGo world | StallCancelled world | StallBlocked

fun stallLoop :: "env \<Rightarrow> world \<Rightarrow> wait_event list \<Rightarrow> stall_result" where
  "stallLoop e w [] =
     (if pendingBlocks e w \<ge> maxQueuedHeaders \<or> pendingReceipts e w \<ge> maxQueuedHeaders
      then StallBlocked else StallGo w)"
| "stallLoop e w (ev # evs) =
     (if pendingBlocks e w \<ge> maxQueuedHeaders \<or> pendingReceipts e w \<ge> maxQueuedHeaders
      then (case ev of
              WaitCancelled \<Rightarrow> StallCancelled w
            | WaitTick \<Rightarrow> stallLoop e (w\<lparr>ticks := ticks w + 1\<rparr>) evs)
      else StallGo w)"

text \<open>
  The loop \<^verbatim>\<open>for len(headers) > 0\<close> over one delivered batch. Each chunk has its script:
  whether the cancel channel is found closed by the non-blocking check before the chunk,
  and the events of its stall loop. \<open>chunkStep\<close> is one pass through the loop body for a
  non-empty \<open>headers\<close>; it either stops the function or hands the rollback list and the
  world to the next pass.
\<close>

datatype chunk_script = ChunkScript bool "wait_event list"

datatype batch_result =
    BatchDone "Header list" world uint64
  | BatchReturn dl_error "Header list" world
  | BatchPanic "Header list" world
  | BatchBlocked

datatype step_result = StepNext "Header list" world | StepStop batch_result

definition chunkLimit :: "Header list \<Rightarrow> nat" where
  "chunkLimit headers =
     (if maxHeadersProcess > length headers then length headers else maxHeadersProcess)"

definition chunkStep ::
  "env \<Rightarrow> SyncMode \<Rightarrow> uint64 \<Rightarrow> world \<Rightarrow> Header list \<Rightarrow> uint64 \<Rightarrow> Header list \<Rightarrow>
   chunk_script \<Rightarrow> step_result" where
  "chunkStep e mode pivot w rollback origin headers script =
     (case script of ChunkScript cancelled waits \<Rightarrow>
        if cancelled then StepStop (BatchReturn ErrCancelHeaderProcessing rollback w)
        else
          let chunk = take (chunkLimit headers) headers
          in case (if mode = FastSync \<or> mode = LightSync
                   then insertChunk e w rollback chunk pivot
                   else ChunkOk rollback w) of
               ChunkPanic rb w1 \<Rightarrow> StepStop (BatchPanic rb w1)
             | ChunkFail err rb w1 \<Rightarrow> StepStop (BatchReturn err rb w1)
             | ChunkOk rb w1 \<Rightarrow>
                 (if mode = FullSync \<or> mode = FastSync then
                    (case stallLoop e w1 waits of
                       StallBlocked \<Rightarrow> StepStop BatchBlocked
                     | StallCancelled w2 \<Rightarrow>
                         StepStop (BatchReturn ErrCancelHeaderProcessing rb w2)
                     | StallGo w2 \<Rightarrow>
                         (let inserts = scheduleInserts e w2 chunk origin;
                              w3 = record_call (Schedule chunk origin) w2
                          in if inserts \<noteq> length chunk
                             then StepStop (BatchReturn ErrBadPeer rb w3)
                             else StepNext rb w3))
                  else StepNext rb w1))"

fun processBatch ::
  "env \<Rightarrow> SyncMode \<Rightarrow> uint64 \<Rightarrow> world \<Rightarrow> Header list \<Rightarrow> uint64 \<Rightarrow> Header list \<Rightarrow>
   chunk_script list \<Rightarrow> batch_result" where
  "processBatch e mode pivot w rollback origin headers [] =
     (if headers = [] then BatchDone rollback w origin else BatchBlocked)"
| "processBatch e mode pivot w rollback origin headers (script # scripts) =
     (if headers = [] then BatchDone rollback w origin
      else case chunkStep e mode pivot w rollback origin headers script of
             StepStop r \<Rightarrow> r
           | StepNext rb w1 \<Rightarrow>
               processBatch e mode pivot w1 rb (origin + of_nat (chunkLimit headers))
                 (drop (chunkLimit headers) headers) scripts)"

text \<open>
  The outer loop: wait for the cancel channel or the next batch on \<^verbatim>\<open>headerProcCh\<close>. An
  empty batch ends the stream: the stalling checks compare the peer's promised total
  difficulty with the local one, and a clean end clears the rollback list. The sends on
  the wake channels change no value the function reads and are left out.
\<close>

datatype ph_event = Cancelled | HeaderBatch "Header list" "chunk_script list"

fun processLoop ::
  "env \<Rightarrow> SyncMode \<Rightarrow> uint64 \<Rightarrow> int \<Rightarrow> world \<Rightarrow> Header list \<Rightarrow> uint64 \<Rightarrow> bool \<Rightarrow>
   ph_event list \<Rightarrow> dl_error option outcome \<times> Header list \<times> world" where
  "processLoop e mode pivot td w rollback origin gotHeaders [] = (Blocked, rollback, w)"
| "processLoop e mode pivot td w rollback origin gotHeaders (Cancelled # evs) =
     (Returned (Some ErrCancelHeaderProcessing), rollback, w)"
| "processLoop e mode pivot td w rollback origin gotHeaders (HeaderBatch headers scripts # evs) =
     (if headers = [] then
        (if mode \<noteq> LightSync \<and> \<not> gotHeaders \<and> td > currentBlockTd e w
         then (Returned (Some ErrStallingPeer), rollback, w)
         else if (mode = FastSync \<or> mode = LightSync) \<and> td > currentHeaderTd e w
         then (Returned (Some ErrStallingPeer), rollback, w)
         else (Returned None, [], w))
      else
        (case processBatch e mode pivot w rollback origin headers scripts of
           BatchBlocked \<Rightarrow> (Blocked, rollback, w)
         | BatchPanic rb w1 \<Rightarrow> (Panicked, rb, w1)
         | BatchReturn err rb w1 \<Rightarrow> (Returned (Some err), rb, w1)
         | BatchDone rb w1 origin1 \<Rightarrow>
             (let w2 = (if syncStatsChainHeight w1 < origin1
                        then w1\<lparr>syncStatsChainHeight := origin1 - 1\<rparr> else w1)
              in processLoop e mode pivot td w2 rb origin1 True evs)))"

text \<open>
  The deferred function runs when \<^verbatim>\<open>processHeaders\<close> returns or panics: a non-empty
  rollback list is flattened to its hashes and handed to \<^verbatim>\<open>Rollback\<close>.
\<close>

definition deferredRollback :: "Header list \<Rightarrow> world \<Rightarrow> world" where
  "deferredRollback rollback w =
     (if length rollback > 0 then record_call (Rollback (map Hash rollback)) w else w)"

definition processHeaders ::
  "env \<Rightarrow> SyncMode \<Rightarrow> world \<Rightarrow> uint64 \<Rightarrow> uint64 \<Rightarrow> int \<Rightarrow> ph_event list \<Rightarrow>
   dl_error option outcome \<times> world" where
  "processHeaders e mode w origin pivot td evs =
     (case processLoop e mode pivot td w [] origin False evs of
        (Blocked, rollback, w1) \<Rightarrow> (Blocked, w1)
      | (r, rollback, w1) \<Rightarrow> (r, deferredRollback rollback w1))"

subsection \<open>Channels, the Downloader record and deliver\<close>

text \<open>
  A Go channel: its buffer, its capacity and the number of goroutines parked on a
  receive. A send can proceed when a receiver is parked (the value is handed over) or
  the buffer has room; \<open>handed\<close> keeps the values handed over.
\<close>

record 'a chan =
  buffer :: "'a list"
  cap :: nat
  recvq :: nat
  handed :: "'a list"

definition canSend :: "'a chan \<Rightarrow> bool" where
  "canSend c \<longleftrightarrow> recvq c > 0 \<or> length (buffer c) < cap c"

definition chanSend :: "'a \<Rightarrow> 'a chan \<Rightarrow> 'a chan" where
  "chanSend x c =
     (if recvq c > 0 then c\<lparr>recvq := recvq c - 1, handed := handed c @ [x]\<rparr>
      else c\<lparr>buffer := buffer c @ [x]\<rparr>)"

definition drained :: "'a chan \<Rightarrow> 'a chan" where
  "drained c = c\<lparr>buffer := []\<rparr>"

text \<open>
  The packets of the four deliveries. Transactions and receipts are opaque byte strings
  here. \<^verbatim>\<open>Items()\<close> is declared with the packet types, outside the sources at hand, and is
  a parameter of \<open>deliver\<close>.
\<close>

datatype dataPack =
    HeaderPack string "Header list"
  | BodyPack string "byte list list list" "Header list list"
  | ReceiptPack string "byte list list list"
  | StatePack string "byte list list"

datatype chan_id = HeaderCh | BodyCh | ReceiptCh | StateCh

datatype meter =
    HeaderInMeter | HeaderDropMeter | BodyInMeter | BodyDropMeter
  | ReceiptInMeter | ReceiptDropMeter | StateInMeter | StateDropMeter

text \<open>
  The fields of \<^verbatim>\<open>Downloader\<close> that \<^verbatim>\<open>synchronise\<close> and \<^verbatim>\<open>deliver\<close> touch. \<open>cancelCh\<close> is
  \<open>None\<close> for a nil channel and otherwise tells whether the channel has been closed. The
  meters are package-level counters, kept with the state.
\<close>

record Downloader =
  mode :: SyncMode
  synchroniseMock :: "(string \<Rightarrow> Hash32 \<Rightarrow> dl_error option) option"
  synchronising :: "32 word"
  notified :: "32 word"
  committed :: "32 word"
  headerCh :: "dataPack chan"
  bodyCh :: "dataPack chan"
  receiptCh :: "dataPack chan"
  stateCh :: "dataPack chan"
  bodyWakeCh :: "bool chan"
  receiptWakeCh :: "bool chan"
  headerProcCh :: "Header list chan"
  cancelPeer :: string
  cancelCh :: "bool option"
  meters :: "meter \<Rightarrow> int"

definition getCh :: "chan_id \<Rightarrow> Downloader \<Rightarrow> dataPack chan" where
  "getCh i d = (case i of HeaderCh \<Rightarrow> headerCh d | BodyCh \<Rightarrow> bodyCh d
                | ReceiptCh \<Rightarrow> receiptCh d | StateCh \<Rightarrow> stateCh d)"

definition setCh :: "chan_id \<Rightarrow> dataPack chan \<Rightarrow> Downloader \<Rightarrow> Downloader" where
  "setCh i c d = (case i of HeaderCh \<Rightarrow> d\<lparr>headerCh := c\<rparr> | BodyCh \<Rightarrow> d\<lparr>bodyCh := c\<rparr>
                  | ReceiptCh \<Rightarrow> d\<lparr>receiptCh := c\<rparr> | StateCh \<Rightarrow> d\<lparr>stateCh := c\<rparr>)"

definition mark :: "meter \<Rightarrow> int \<Rightarrow> Downloader \<Rightarrow> Downloader" where
  "mark m n d = d\<lparr>meters := (meters d)(m := meters d m + n)\<rparr>"

text \<open>
  \<^verbatim>\<open>deliver\<close>. The \<^verbatim>\<open>select\<close> between the send and the cancel channel is resolved by the
  runtime; \<open>chosen\<close> is the case it takes. A case can only be taken when it is ready; when
  the chosen case is not ready the result is \<open>None\<close> (no such execution, or the goroutine
  is still blocked). The deferred function marks the drop meter when an error is returned.
\<close>

datatype select_case = SendCase | CancelCase

definition deliver ::
  "(dataPack \<Rightarrow> int) \<Rightarrow> Downloader \<Rightarrow> string \<Rightarrow> chan_id \<Rightarrow> dataPack \<Rightarrow> meter \<Rightarrow> meter \<Rightarrow>
   select_case \<Rightarrow> (dl_error option \<times> Downloader) option" where
  "deliver Items d id' destCh packet inMeter dropMeter chosen =
     (let d1 = mark inMeter (Items packet) d
      in case cancelCh d1 of
           None \<Rightarrow> Some (Some ErrNoSyncActive, mark dropMeter (Items packet) d1)
         | Some isClosed \<Rightarrow>
             (case chosen of
                SendCase \<Rightarrow>
                  if canSend (getCh destCh d1)
                  then Some (None, setCh destCh (chanSend packet (getCh destCh d1)) d1)
                  else None
              | CancelCase \<Rightarrow>
                  if isClosed then Some (Some ErrNoSyncActive, mark dropMeter (Items packet) d1)
                  else None))"

definition DeliverHeaders ::
  "(dataPack \<Rightarrow> int) \<Rightarrow> Downloader \<Rightarrow> string \<Rightarrow> Header list \<Rightarrow> select_case \<Rightarrow>
   (dl_error option \<times> Downloader) option" where
  "DeliverHeaders Items d id' headers chosen =
     deliver Items d id' HeaderCh (HeaderPack id' headers) HeaderInMeter HeaderDropMeter chosen"

definition DeliverBodies ::
  "(dataPack \<Rightarrow> int) \<Rightarrow> Downloader \<Rightarrow> string \<Rightarrow> byte list list list \<Rightarrow> Header list list \<Rightarrow>
   select_case \<Rightarrow> (dl_error option \<times> Downloader) option" where
  "DeliverBodies Items d id' transactions uncles chosen =
     deliver Items d id' BodyCh (BodyPack id' transactions uncles) BodyInMeter BodyDropMeter chosen"

definition DeliverReceipts ::
  "(dataPack \<Rightarrow> int) \<Rightarrow> Downloader \<Rightarrow> string \<Rightarrow> byte list list list \<Rightarrow> select_case \<Rightarrow>
   (dl_error option \<times> Downloader) option" where
  "DeliverReceipts Items d id' receipts chosen =
     deliver Items d id' ReceiptCh (ReceiptPack id' receipts) ReceiptInMeter ReceiptDropMeter chosen"

definition DeliverNodeData ::
  "(dataPack \<Rightarrow> int) \<Rightarrow> Downloader \<Rightarrow> string \<Rightarrow> byte list list \<Rightarrow> select_case \<Rightarrow>
   (dl_error option \<times> Downloader) option" where
  "DeliverNodeData Items d id' data chosen =
     deliver Items d id' StateCh (StatePack id' data) StateInMeter StateDropMeter chosen"

text \<open>The four inbound channels, to say that a delivery left them as they were.\<close>

definition inbound :: "Downloader \<Rightarrow> dataPack chan \<times> dataPack chan \<times> dataPack chan \<times> dataPack chan" where
  "inbound d = (headerCh d, bodyCh d, receiptCh d, stateCh d)"

text \<open>
  A fresh downloader as \<^verbatim>\<open>New\<close> makes it: buffered channels of capacity 1, an unbuffered
  state channel, no cancel channel yet, no mock.
\<close>

definition newChan :: "nat \<Rightarrow> 'a chan" where
  "newChan n = \<lparr>buffer = [], cap = n, recvq = 0, handed = []\<rparr>"

definition newDownloader :: "SyncMode \<Rightarrow> Downloader" where
  "newDownloader m =
     \<lparr>mode = m, synchroniseMock = None, synchronising = 0, notified = 0, committed = 0,
      headerCh = newChan 1, bodyCh = newChan 1, receiptCh = newChan 1, stateCh = newChan 0,
      bodyWakeCh = newChan 1, receiptWakeCh = newChan 1, headerProcCh = newChan 1,
      cancelPeer = [], cancelCh = None, meters = (\<lambda>m. 0)\<rparr>"

definition itemCount :: "dataPack \<Rightarrow> int" where
  "itemCount p = (case p of HeaderPack i hs \<Rightarrow> int (length hs)
                  | BodyPack i txs us \<Rightarrow> int (length txs)
                  | ReceiptPack i rs \<Rightarrow> int (length rs)
                  | StatePack i ds \<Rightarrow> int (length ds))"

subsection \<open>synchronise\<close>

text \<open>
  \<^verbatim>\<open>cancel\<close> closes the cancel channel unless it is nil or already closed. \<^verbatim>\<open>Cancel\<close> also
  waits for the fetchers, which changes no field.
\<close>

definition cancel :: "Downloader \<Rightarrow> Downloader" where
  "cancel d = (case cancelCh d of None \<Rightarrow> d | Some isClosed \<Rightarrow> d\<lparr>cancelCh := Some True\<rparr>)"

text \<open>
  The entry of \<^verbatim>\<open>synchronise\<close> after the mock check:
  \<^verbatim>\<open>atomic.CompareAndSwapInt32(&d.synchronising, 0, 1)\<close> fails (\<open>None\<close>, the caller returns
  \<^verbatim>\<open>errBusy\<close>) or succeeds, and then the leftovers are cleared: the notification flag is
  set once, one element is taken from each wake channel, the inbound channels and the
  header-processing channel are emptied, a fresh cancel channel is made, and the master
  peer and the mode are recorded. Queue and peer set are reset too; they are not fields
  of the record.
\<close>

definition enterCycle :: "Downloader \<Rightarrow> string \<Rightarrow> SyncMode \<Rightarrow> Downloader option" where
  "enterCycle d id' mode' =
     (if synchronising d \<noteq> 0 then None
      else Some (d\<lparr>synchronising := 1,
                   notified := (if notified d = 0 then 1 else notified d),
                   bodyWakeCh := (bodyWakeCh d)\<lparr>buffer := tl (buffer (bodyWakeCh d))\<rparr>,
                   receiptWakeCh := (receiptWakeCh d)\<lparr>buffer := tl (buffer (receiptWakeCh d))\<rparr>,
                   headerCh := drained (headerCh d),
                   bodyCh := drained (bodyCh d),
                   receiptCh := drained (receiptCh d),
                   headerProcCh := drained (headerProcCh d),
                   cancelCh := Some False,
                   cancelPeer := id',
                   mode := mode'\<rparr>))"

text \<open>
  The deferred calls, last registered first: \<^verbatim>\<open>d.Cancel()\<close>, then
  \<^verbatim>\<open>atomic.StoreInt32(&d.synchronising, 0)\<close>.
\<close>

definition leaveCycle :: "Downloader \<Rightarrow> Downloader" where
  "leaveCycle d = (cancel d)\<lparr>synchronising := 0\<rparr>"

text \<open>
  \<^verbatim>\<open>synchronise\<close>. The rest of the body, the peer lookup and \<^verbatim>\<open>syncWithPeer\<close>, is the
  parameter \<open>cycle\<close>: it yields the error returned and the state it leaves.
\<close>

type_synonym cycle = "Downloader \<Rightarrow> string \<Rightarrow> Hash32 \<Rightarrow> int \<Rightarrow> dl_error option \<times> Downloader"

definition synchronise ::
  "cycle \<Rightarrow> Downloader \<Rightarrow> string \<Rightarrow> Hash32 \<Rightarrow> int \<Rightarrow> SyncMode \<Rightarrow> dl_error option \<times> Downloader" where
  "synchronise cyc d id' h td mode' =
     (case synchroniseMock d of
        Some mock \<Rightarrow> (mock id' h, d)
      | None \<Rightarrow>
          (case enterCycle d id' mode' of
             None \<Rightarrow> (Some ErrBusy, d)
           | Some d1 \<Rightarrow> (let (r, d2) = cyc d1 id' h td in (r, leaveCycle d2))))"

text \<open>
  Several goroutines calling \<^verbatim>\<open>synchronise\<close> on one downloader, interleaved at its atomic
  operations. A goroutine is idle, has made the call and passed the mock check
  (\<open>Called\<close>), is inside the cycle after a successful compare-and-swap (\<open>InCycle\<close>), or has
  returned (\<open>Done\<close>). \<open>Call\<close> is the call with the mock check, \<open>Enter\<close> the compare-and-swap
  with the set-up, \<open>Leave\<close> the rest of the cycle with the deferred calls.
\<close>

datatype pc =
    Idle
  | Called string Hash32 int SyncMode
  | InCycle string Hash32 int
  | Done "dl_error option"

record system =
  dl :: Downloader
  pcs :: "nat \<Rightarrow> pc"

datatype action = Call nat string Hash32 int SyncMode | Enter nat | Leave nat

definition step :: "cycle \<Rightarrow> system \<Rightarrow> action \<Rightarrow> system option" where
  "step cyc s a =
     (case a of
        Call t id' h td mode' \<Rightarrow>
          (case pcs s t of
             Idle \<Rightarrow>
               (case synchroniseMock (dl s) of
                  Some mock \<Rightarrow> Some (s\<lparr>pcs := (pcs s)(t := Done (mock id' h))\<rparr>)
                | None \<Rightarrow> Some (s\<lparr>pcs := (pcs s)(t := Called id' h td mode')\<rparr>))
           | _ \<Rightarrow> None)
      | Enter t \<Rightarrow>
          (case pcs s t of
             Called id' h td mode' \<Rightarrow>
               (case enterCycle (dl s) id' mode' of
                  None \<Rightarrow> Some (s\<lparr>pcs := (pcs s)(t := Done (Some ErrBusy))\<rparr>)
                | Some d1 \<Rightarrow> Some (s\<lparr>dl := d1, pcs := (pcs s)(t := InCycle id' h td)\<rparr>))
           | _ \<Rightarrow> None)
      | Leave t \<Rightarrow>
          (case pcs s t of
             InCycle id' h td \<Rightarrow>
               (let (r, d2) = cyc (dl s) id' h td
                in Some (s\<lparr>dl := leaveCycle d2, pcs := (pcs s)(t := Done r)\<rparr>))
           | _ \<Rightarrow> None))"

fun run :: "cycle \<Rightarrow> system \<Rightarrow> action list \<Rightarrow> system option" where
  "run cyc s [] = Some s"
| "run cyc s (a # as) = (case step cyc s a of None \<Rightarrow> None | Some s1 \<Rightarrow> run cyc s1 as)"

fun active :: "pc \<Rightarrow> bool" where
  "active (InCycle i h td) = True"
| "active p = False"

text \<open>
  The invariant of the interleaving: no mock, at most one goroutine inside the cycle, and
  the flag is set exactly while one is.
\<close>

definition exclusive :: "system \<Rightarrow> bool" where
  "exclusive s \<longleftrightarrow>
     synchroniseMock (dl s) = None \<and>
     (\<forall>t u. active (pcs s t) \<and> active (pcs s u) \<longrightarrow> t = u) \<and>
     (synchronising (dl s) \<noteq> 0 \<longleftrightarrow> (\<exists>t. active (pcs s t)))"

text \<open>The cycle body writes neither the flag nor the mock (only \<^verbatim>\<open>synchronise\<close> does).\<close>

definition keeps_flag :: "cycle \<Rightarrow> bool" where
  "keeps_flag cyc \<longleftrightarrow>
     (\<forall>d i h td. synchronising (snd (cyc d i h td)) = synchronising d \<and>
                 synchroniseMock (snd (cyc d i h td)) = synchroniseMock d)"

text \<open>A cycle that fails at once because the peer is unknown, and an idle system.\<close>

definition unknownPeer :: cycle where
  "unknownPeer d i h td = (Some ErrUnknownPeer, d)"

definition system0 :: system where
  "system0 = \<lparr>dl = newDownloader FullSync, pcs = (\<lambda>t. Idle)\<rparr>"

subsection \<open>The RTT estimator: qosTuner, qosReduceConfidence, requestTTL\<close>

text \<open>
  \<^verbatim>\<open>rttEstimate\<close> and \<^verbatim>\<open>rttConfidence\<close> are \<^verbatim>\<open>uint64\<close> fields read and written atomically;
  a \<^verbatim>\<open>time.Duration\<close> is an \<^verbatim>\<open>int64\<close> of nanoseconds. Unsigned values are naturals and
  signed ones integers, with the wrap-around of 64-bit arithmetic and of the conversions
  written out.
\<close>

definition int64 :: "int \<Rightarrow> int" where
  "int64 k = (k + 2 ^ 63) mod 2 ^ 64 - 2 ^ 63"

definition to_uint64 :: "int \<Rightarrow> nat" where
  "to_uint64 k = nat (k mod 2 ^ 64)"

text \<open>
  The arithmetic on \<^verbatim>\<open>float64\<close> is exact arithmetic followed by rounding to a
  representable number. The rounding function is a parameter \<open>fl\<close>; \<open>rounding fl\<close> states
  what is used of it: it is monotone, and the multiples of 1/32 of magnitude up to
  \<open>2^45\<close> are representable (in binary64 they are: 53 bits of mantissa). A conversion
  from float to an integer type truncates towards zero.
\<close>

definition rounding :: "(real \<Rightarrow> real) \<Rightarrow> bool" where
  "rounding fl \<longleftrightarrow>
     (\<forall>x y. x \<le> y \<longrightarrow> fl x \<le> fl y) \<and>
     (\<forall>k::int. \<bar>k\<bar> \<le> 2 ^ 50 \<longrightarrow> fl (of_int k / 32) = of_int k / 32)"

definition truncToZero :: "real \<Rightarrow> int" where
  "truncToZero x = (if 0 \<le> x then \<lfloor>x\<rfloor> else \<lceil>x\<rceil>)"

definition rttMinEstimate :: int where "rttMinEstimate = 2 * 1000000000"
definition rttMaxEstimate :: int where "rttMaxEstimate = 20 * 1000000000"
definition ttlLimit :: int where "ttlLimit = 60 * 1000000000"
definition ttlScaling :: int where "ttlScaling = 3"
definition qosConfidenceCap :: nat where "qosConfidenceCap = 10"

text \<open>The \<^verbatim>\<open>float64\<close> variables \<^verbatim>\<open>qosTuningImpact = 0.25\<close> and \<^verbatim>\<open>rttMinConfidence = 0.1\<close>.\<close>

definition qosTuningImpact :: "(real \<Rightarrow> real) \<Rightarrow> real" where
  "qosTuningImpact fl = fl (1 / 4)"

definition rttMinConfidence :: "(real \<Rightarrow> real) \<Rightarrow> real" where
  "rttMinConfidence fl = fl (1 / 10)"

record qos =
  rttEstimate :: nat
  rttConfidence :: nat

text \<open>
  One pass of the loop of \<^verbatim>\<open>qosTuner\<close>; \<open>median\<close> is what \<^verbatim>\<open>d.peers.medianRTT()\<close> returns
  (the peer set is not among the sources at hand):
  \<^verbatim>\<open>
  rtt := time.Duration((1-qosTuningImpact)*float64(atomic.LoadUint64(&d.rttEstimate)) +
                       qosTuningImpact*float64(d.peers.medianRTT()))
  atomic.StoreUint64(&d.rttEstimate, uint64(rtt))
  conf := atomic.LoadUint64(&d.rttConfidence)
  conf = conf + (1000000-conf)/2
  atomic.StoreUint64(&d.rttConfidence, conf)
  \<close>
\<close>

definition qosTuner_pass :: "(real \<Rightarrow> real) \<Rightarrow> int \<Rightarrow> qos \<Rightarrow> qos" where
  "qosTuner_pass fl median s =
     (let rtt = int64 (truncToZero
                  (fl (fl (fl (1 - qosTuningImpact fl) * fl (real (rttEstimate s))) +
                       fl (qosTuningImpact fl * fl (of_int median)))));
          conf = rttConfidence s;
          conf' = (conf + ((1000000 + 2 ^ 64 - conf) mod 2 ^ 64) div 2) mod 2 ^ 64
      in \<lparr>rttEstimate = to_uint64 rtt, rttConfidence = conf'\<rparr>)"

text \<open>
  \<^verbatim>\<open>qosReduceConfidence\<close>, called when a peer joins; \<open>peers\<close> is \<^verbatim>\<open>uint64(d.peers.Len())\<close>.
\<close>

definition qosReduceConfidence :: "(real \<Rightarrow> real) \<Rightarrow> nat \<Rightarrow> qos \<Rightarrow> qos" where
  "qosReduceConfidence fl peers s =
     (if peers = 0 then s
      else if peers = 1 then s\<lparr>rttConfidence := 1000000\<rparr>
      else if peers \<ge> qosConfidenceCap then s
      else
        let conf = ((rttConfidence s * (peers - 1)) mod 2 ^ 64) div peers;
            conf' = (if fl (fl (real conf) / 1000000) < rttMinConfidence fl
                     then to_uint64 (truncToZero (fl (rttMinConfidence fl * 1000000)))
                     else conf)
        in s\<lparr>rttConfidence := conf'\<rparr>)"

text \<open>
  \<^verbatim>\<open>
  rtt  = time.Duration(atomic.LoadUint64(&d.rttEstimate))
  conf = float64(atomic.LoadUint64(&d.rttConfidence)) / 1000000.0
  ttl := time.Duration(ttlScaling) * time.Duration(float64(rtt)/conf)
  if ttl > ttlLimit { ttl = ttlLimit }
  \<close>
  (A zero confidence would divide by zero, giving an infinity in Go and 0 here; the states
  the estimator reaches have a positive confidence.)
\<close>

definition requestTTL :: "(real \<Rightarrow> real) \<Rightarrow> qos \<Rightarrow> int" where
  "requestTTL fl s =
     (let rtt = int64 (int (rttEstimate s));
          conf = fl (fl (real (rttConfidence s)) / 1000000);
          ttl = int64 (ttlScaling * int64 (truncToZero (fl (fl (of_int rtt) / conf))))
      in if ttl > ttlLimit then ttlLimit else ttl)"

text \<open>
  The estimator as \<^verbatim>\<open>New\<close> sets it up, and its life: tuner passes, each with the median
  it read, and peers joining, each with the size of the peer set.
\<close>

definition qos_init :: qos where
  "qos_init = \<lparr>rttEstimate = nat rttMaxEstimate, rttConfidence = 1000000\<rparr>"

datatype qos_event = Tuned int | PeerJoined nat

fun qos_run :: "(real \<Rightarrow> real) \<Rightarrow> qos \<Rightarrow> qos_event list \<Rightarrow> qos" where
  "qos_run fl s [] = s"
| "qos_run fl s (Tuned median # evs) = qos_run fl (qosTuner_pass fl median s) evs"
| "qos_run fl s (PeerJoined peers # evs) = qos_run fl (qosReduceConfidence fl peers s) evs"

fun median_of :: "qos_event \<Rightarrow> int option" where
  "median_of (Tuned median) = Some median"
| "median_of (PeerJoined peers) = None"

text \<open>
  The range the tuner keeps the two fields in. (The confidence in fact never drops below
  100000; the weaker bound is what follows from \<open>rounding\<close> alone.)
\<close>

definition qos_ok :: "qos \<Rightarrow> bool" where
  "qos_ok s \<longleftrightarrow>
     nat rttMinEstimate \<le> rttEstimate s \<and> rttEstimate s \<le> nat rttMaxEstimate \<and>
     31250 \<le> rttConfidence s \<and> rttConfidence s \<le> 1000000"

subsection \<open>Call-log predicates and concrete collaborators\<close>

text \<open>
  The frequency rule read off a recorded \<^verbatim>\<open>InsertHeaderChain\<close> call, and its lifting to a
  whole call log and to the results of each loop.
\<close>

definition verify_rule :: "uint64 \<Rightarrow> call \<Rightarrow> bool" where
  "verify_rule pivot c =
     (case c of
        InsertHeaderChain chunk f \<Rightarrow>
          chunk \<noteq> [] \<and> f = (if Uint64 (Number (last chunk)) + 24 > pivot then 1 else 100)
      | _ \<Rightarrow> True)"

definition calls_ok :: "uint64 \<Rightarrow> world \<Rightarrow> bool" where
  "calls_ok pivot w = list_all (verify_rule pivot) (calls w)"

fun batch_ok :: "uint64 \<Rightarrow> batch_result \<Rightarrow> bool" where
  "batch_ok pivot (BatchDone rb w origin) = calls_ok pivot w"
| "batch_ok pivot (BatchReturn err rb w) = calls_ok pivot w"
| "batch_ok pivot (BatchPanic rb w) = calls_ok pivot w"
| "batch_ok pivot BatchBlocked = True"

text \<open>
  Concrete collaborators for running the model: \<open>env_fresh\<close> is a chain that knows no header and accepts every chunk
  with an idle queue; \<open>env_reject good\<close> accepts exactly the chunks of length \<open>good\<close> and
  fails every other chunk at its second header (index 1).
\<close>

definition world0 :: world where
  "world0 = \<lparr>calls = [], ticks = 0, syncStatsChainHeight = 0\<rparr>"

definition env_fresh :: env where
  "env_fresh = \<lparr>hasHeader = (\<lambda>w h n. False),
                 insertHeaderChain = (\<lambda>w chunk f. (0, False)),
                 currentBlockTd = (\<lambda>w. 0), currentHeaderTd = (\<lambda>w. 0),
                 pendingBlocks = (\<lambda>w. 0), pendingReceipts = (\<lambda>w. 0),
                 scheduleInserts = (\<lambda>w chunk origin. length chunk)\<rparr>"

definition env_reject :: "nat \<Rightarrow> env" where
  "env_reject good = env_fresh\<lparr>insertHeaderChain :=
      (\<lambda>w chunk f. if length chunk = good then (0, False) else (1, True))\<rparr>"

section \<open>Properties\<close>

text \<open>
  C10. For every gas pool and amount: if the pool holds less than the amount, \<open>SubGas\<close>
  returns the gas-limit-reached error and the pool is unchanged; otherwise it returns nil
  and the pool is lowered by exactly the amount (no wrap-around occurs).
\<close>

theorem SubGas_spec:
  "(gp < amount \<longrightarrow> SubGas gp amount = (Some ErrGasLimitReached, gp)) \<and>
   (\<not> gp < amount \<longrightarrow>
      fst (SubGas gp amount) = None \<and>
      unat (Gas (snd (SubGas gp amount))) = unat (Gas gp) - unat amount \<and>
      unat (Gas (snd (SubGas gp amount))) + unat amount = unat (Gas gp))"
proof (cases "gp < amount")
  case True
  then show ?thesis by (simp add: SubGas_def)
next
  case False
  then have le: "amount \<le> gp" by simp
  then have "unat (gp - amount) = unat gp - unat amount"
    by (rule unat_sub)
  moreover from le have "unat amount \<le> unat gp"
    by (simp add: word_le_nat_alt)
  ultimately show ?thesis using False by (simp add: SubGas_def Gas_def)
qed

theorem SubGas_spec_witness:
  "SubGas 5 7 = (Some ErrGasLimitReached, 5) \<and>
   fst (SubGas 7 5) = None \<and> unat (Gas (snd (SubGas 7 5))) = 2"
  using SubGas_spec [of 5 7] SubGas_spec [of 7 5] by (simp add: Gas_def)

text \<open>
  C7. For all generation counters \<open>g\<close> and limits \<open>l\<close>: a full or short node can be unloaded
  iff its flag is not dirty and \<open>g - gen\<close>, computed in 16-bit unsigned arithmetic as the
  code does, is at least \<open>l\<close>; hash and value nodes can never be unloaded.
\<close>

theorem canUnload_spec:
  "canUnload (FullNode cs fl) g l =
     Some (\<not> dirty fl \<and> (unat g + 65536 - unat (gen fl)) mod 65536 \<ge> unat l) \<and>
   canUnload (ShortNode k v fl) g l =
     Some (\<not> dirty fl \<and> (unat g + 65536 - unat (gen fl)) mod 65536 \<ge> unat l) \<and>
   canUnload (HashNode h) g l = Some False \<and>
   canUnload (ValueNode w) g l = Some False"
proof -
  have bg: "unat g < 65536" and bf: "unat (gen fl) < 65536"
    using unsigned_less [of g, where 'a = nat] unsigned_less [of "gen fl", where 'a = nat]
    by simp_all
  have "unat (g - gen fl) = (unat g + 65536 - unat (gen fl)) mod 65536"
  proof (cases "unat (gen fl) \<le> unat g")
    case True
    then have "unat (g - gen fl) = unat g - unat (gen fl)"
      by (simp add: unat_sub_if_size word_size)
    moreover from True
    have "unat g + 65536 - unat (gen fl) = (unat g - unat (gen fl)) + 65536"
      by simp
    then have "(unat g + 65536 - unat (gen fl)) mod 65536 = (unat g - unat (gen fl)) mod 65536"
      by (simp only: mod_add_self2)
    moreover from bg have "(unat g - unat (gen fl)) mod 65536 = unat g - unat (gen fl)"
      by simp
    ultimately show ?thesis by simp
  next
    case False
    then have "unat (g - gen fl) = unat g + 65536 - unat (gen fl)"
      by (simp add: unat_sub_if_size word_size)
    moreover from False bg bf
    have "(unat g + 65536 - unat (gen fl)) mod 65536 = unat g + 65536 - unat (gen fl)"
      by simp
    ultimately show ?thesis by simp
  qed
  then show ?thesis
    by (simp add: nodeFlag_canUnload_def word_le_nat_alt)
qed


subsection \<open>decodeRef\<close>

text \<open>
  What \<open>decodeRef\<close> does with each kind of input, for any splitter and node decoder: an
  empty string is the empty child, a 32-byte string a hash reference, a list of encoded
  size at most 32 is handed to \<open>decodeNode\<close>, and everything else is an error.
\<close>

lemma decodeRef_cases:
  "split buf = Inr (String, [], rest) \<Longrightarrow> decodeRef split dn buf g = (NilNode, rest, None)"
  "split buf = Inr (String, val, rest) \<Longrightarrow> length val = 32 \<Longrightarrow>
     decodeRef split dn buf g = (HashNode val, rest, None)"
  "split buf = Inr (List, val, rest) \<Longrightarrow> int (length buf) - int (length rest) \<le> 32 \<Longrightarrow>
     decodeRef split dn buf g = (fst (dn [] buf g), rest, snd (dn [] buf g))"
  "split buf = Inr (List, val, rest) \<Longrightarrow> int (length buf) - int (length rest) > 32 \<Longrightarrow>
     decodeRef split dn buf g =
       (NilNode, buf, Some (OversizedEmbeddedNode (int (length buf) - int (length rest))))"
  "split buf = Inr (kind, val, rest) \<Longrightarrow> kind \<noteq> List \<Longrightarrow>
     \<not> (kind = String \<and> (length val = 0 \<or> length val = 32)) \<Longrightarrow>
     decodeRef split dn buf g = (NilNode, [], Some (InvalidStringSize (length val)))"
  "split buf = Inl err \<Longrightarrow> decodeRef split dn buf g = (NilNode, buf, Some (RlpError err))"
  by (auto simp: decodeRef_def hashLen_def Let_def split: prod.splits)

text \<open>
  C6 at the failing input: the encoding \<open>leaf32\<close> is an RLP list whose total encoded size
  is 32 bytes, which is not strictly smaller than 32; \<open>decodeRef\<close> does not reject it as
  oversized but decodes it as an inline child, returning whatever \<open>decodeNode\<close> makes of
  it.
\<close>

theorem decodeRef_accepts_32_byte_list:
  "rlp_Split leaf32 = Inr (List, tl leaf32, []) \<and>
   int (length leaf32) - int (length ([] :: byte list)) = 32 \<and>
   \<not> int (length leaf32) - int (length ([] :: byte list)) < hashLen \<and>
   decodeRef rlp_Split dn leaf32 g = (fst (dn [] leaf32 g), [], snd (dn [] leaf32 g))"
proof -
  have split: "rlp_Split leaf32 = Inr (List, tl leaf32, [])"
    by (simp add: rlp_Split_def leaf32_def)
  have len: "int (length leaf32) - int (length ([] :: byte list)) = 32"
    by (simp add: leaf32_def)
  from split len show ?thesis
    by (simp add: decodeRef_cases(3) hashLen_def)
qed


subsection \<open>syncWithPeer: pivot and origin\<close>

text \<open>
  C3, as stated, fails: with the peer at height 100 and the common ancestor at 50 the
  pivot is 36, which is not above the origin, and the origin becomes 35, not 49.
\<close>

theorem syncWithPeer_pivot_counterexample:
  "syncWithPeer_pivot FastSync 100 50 = (36, 35, 0) \<and> (36::uint64) \<le> 50 \<and> (35::uint64) \<noteq> 50 - 1"
  by (simp add: syncWithPeer_pivot_def fsMinFullBlocks_def)

text \<open>
  C3, amended. In fast smode the pivot is the peer's height minus \<open>fsMinFullBlocks\<close>, or 0
  when the height is not greater than \<open>fsMinFullBlocks\<close>. In the latter case the origin
  is reset to 0; otherwise, whenever the pivot is not above the origin, the origin is set
  to one below the pivot (so it ends strictly below the pivot), and it is left unchanged
  when it already is below the pivot.
\<close>

theorem syncWithPeer_pivot_fast:
  "syncWithPeer_pivot FastSync height origin = (pivot, origin', comm) \<Longrightarrow>
     unat pivot = unat height - fsMinFullBlocks \<and>
     (unat height \<le> fsMinFullBlocks \<longrightarrow> origin' = 0) \<and>
     (unat height > fsMinFullBlocks \<and> pivot \<le> origin \<longrightarrow>
        unat origin' = unat pivot - 1 \<and> origin' < pivot) \<and>
     (unat height > fsMinFullBlocks \<and> \<not> pivot \<le> origin \<longrightarrow> origin' = origin)"
  by (auto simp add: syncWithPeer_pivot_def fsMinFullBlocks_def Let_def word_le_nat_alt
        word_less_nat_alt unat_sub_if_size word_size split: if_splits)

theorem syncWithPeer_pivot_fast_witness:
  "syncWithPeer_pivot FastSync 100 50 = (36, 35, 0) \<and>
   unat (36::uint64) = unat (100::uint64) - fsMinFullBlocks \<and>
   unat (35::uint64) = unat (36::uint64) - 1 \<and> (35::uint64) < 36"
proof -
  have run: "syncWithPeer_pivot FastSync 100 50 = (36, 35, 0)"
    by (simp add: syncWithPeer_pivot_def fsMinFullBlocks_def)
  show ?thesis
    using syncWithPeer_pivot_fast [OF run] run
    by (simp add: fsMinFullBlocks_def)
qed

subsection \<open>processHeaders: the call log\<close>

lemma chunkFrequency_rule:
  "chunk \<noteq> [] \<Longrightarrow> verify_rule pivot (InsertHeaderChain chunk (chunkFrequency chunk pivot))"
  by (simp add: verify_rule_def chunkFrequency_def fsHeaderForceVerify_def
        fsHeaderCheckFrequency_def)

lemma calls_ok_record:
  "calls_ok pivot w \<Longrightarrow> verify_rule pivot c \<Longrightarrow> calls_ok pivot (record_call c w)"
  by (simp add: calls_ok_def record_call_def)

lemma insertChunk_ok:
  assumes "calls_ok pivot w"
  shows "case insertChunk e w rb chunk pivot of
           ChunkOk rb' w' \<Rightarrow> calls_ok pivot w'
         | ChunkFail err rb' w' \<Rightarrow> calls_ok pivot w'
         | ChunkPanic rb' w' \<Rightarrow> calls_ok pivot w'"
  using assms calls_ok_record [OF assms chunkFrequency_rule, of chunk]
  by (auto simp: insertChunk_def Let_def split: if_splits prod.splits)

lemma stallLoop_calls:
  "stallLoop e w evs = StallGo w' \<or> stallLoop e w evs = StallCancelled w' \<Longrightarrow>
   calls w' = calls w"
  by (induction e w evs rule: stallLoop.induct) (auto split: if_splits wait_event.splits)

lemma stallLoop_ok:
  "stallLoop e w evs = StallGo w' \<Longrightarrow> calls_ok pivot w \<Longrightarrow> calls_ok pivot w'"
  "stallLoop e w evs = StallCancelled w' \<Longrightarrow> calls_ok pivot w \<Longrightarrow> calls_ok pivot w'"
  using stallLoop_calls [of e w evs w'] by (simp_all add: calls_ok_def)

lemma chunkStep_ok:
  assumes "calls_ok pivot w"
  shows "case chunkStep e smode pivot w rb origin headers script of
           StepNext rb' w' \<Rightarrow> calls_ok pivot w'
         | StepStop r \<Rightarrow> batch_ok pivot r"
proof (cases script)
  case (ChunkScript cancelled waits)
  show ?thesis
  proof (cases "smode = FastSync \<or> smode = LightSync")
    case True
    then show ?thesis
      using assms ChunkScript
        insertChunk_ok [OF assms, of e rb "take (chunkLimit headers) headers"]
      by (cases "insertChunk e w rb (take (chunkLimit headers) headers) pivot")
         (auto simp: chunkStep_def Let_def verify_rule_def intro!: calls_ok_record
               dest: stallLoop_ok split: stall_result.splits)
  next
    case False
    then show ?thesis
      using assms ChunkScript
      by (auto simp: chunkStep_def Let_def verify_rule_def intro!: calls_ok_record
               dest: stallLoop_ok split: stall_result.splits)
  qed
qed

lemma processBatch_ok:
  "calls_ok pivot w \<Longrightarrow>
   batch_ok pivot (processBatch e smode pivot w rb origin headers scripts)"
proof (induction scripts arbitrary: w rb origin headers)
  case Nil
  then show ?case by simp
next
  case (Cons script scripts)
  show ?case
    using chunkStep_ok [OF Cons.prems, of e smode rb origin headers script] Cons.prems Cons.IH
    by (auto split: step_result.splits)
qed

lemma processLoop_ok:
  "calls_ok pivot w \<Longrightarrow>
   calls_ok pivot (snd (snd (processLoop e smode pivot td w rb origin got evs)))"
proof (induction evs arbitrary: w rb origin got)
  case Nil
  then show ?case by simp
next
  case (Cons ev evs)
  show ?case
  proof (cases ev)
    case Cancelled
    with Cons.prems show ?thesis by simp
  next
    case (HeaderBatch headers scripts)
    show ?thesis
    proof (cases "headers = []")
      case True
      with Cons.prems HeaderBatch show ?thesis by simp
    next
      case False
      note ne = this
      have b: "batch_ok pivot (processBatch e smode pivot w rb origin headers scripts)"
        by (rule processBatch_ok [OF Cons.prems])
      show ?thesis
      proof (cases "processBatch e smode pivot w rb origin headers scripts")
        case (BatchDone rb1 w1 origin1)
        with b have "calls_ok pivot w1" by simp
        then have "calls_ok pivot (if syncStatsChainHeight w1 < origin1
                        then w1\<lparr>syncStatsChainHeight := origin1 - 1\<rparr> else w1)"
          by (simp add: calls_ok_def)
        from Cons.IH [OF this] show ?thesis
          using HeaderBatch ne BatchDone by (simp add: Let_def)
      next
        case (BatchReturn err rb1 w1)
        with b HeaderBatch ne show ?thesis by simp
      next
        case (BatchPanic rb1 w1)
        with b HeaderBatch ne show ?thesis by simp
      next
        case BatchBlocked
        with Cons.prems HeaderBatch ne show ?thesis by simp
      qed
    qed
  qed
qed

lemma processHeaders_ok:
  "calls_ok pivot w \<Longrightarrow> calls_ok pivot (snd (processHeaders e smode w origin pivot td evs))"
  using processLoop_ok [of pivot w e smode td "[]" origin False evs]
  by (auto simp: processHeaders_def deferredRollback_def calls_ok_def record_call_def
        verify_rule_def split: prod.splits outcome.splits)

lemma Uint64_plus_24:
  assumes "0 \<le> x" and "x + 24 < 2 ^ 64"
  shows "unat (Uint64 x + 24) = nat x + 24"
proof -
  have "uint (word_of_int x + 24 :: uint64) = (x + 24) mod 2 ^ 64"
    by (simp add: uint_word_ariths uint_word_of_int mod_add_left_eq)
  also have "\<dots> = x + 24" using assms by simp
  finally have "uint (Uint64 x + 24) = x + 24"
    using assms by (simp add: Uint64_def)
  then show ?thesis
    using assms by (simp add: unat_eq_nat_uint)
qed


subsection \<open>processHeaders: verification frequency\<close>


text \<open>
  C4, as stated, fails: in fast smode with the pivot at 1000, a batch consisting of header
  5000, which is 4000 blocks past the pivot, is inserted with frequency 1, not 100.
\<close>

theorem processHeaders_frequency_counterexample:
  "processHeaders env_fresh FastSync world0 5000 1000 0
     [HeaderBatch [hdr 5000] [ChunkScript False []], HeaderBatch [] []] =
   (Returned None,
    \<lparr>calls = [InsertHeaderChain [hdr 5000] 1, Schedule [hdr 5000] 5000],
     ticks = 0, syncStatsChainHeight = 5000\<rparr>) \<and>
   \<not> \<bar>Number (hdr 5000) - 1000\<bar> \<le> int fsHeaderForceVerify"
  by code_simp

text \<open>
  C4, amended. Every \<^verbatim>\<open>InsertHeaderChain\<close> call of the header processor (fast or light
  smode) carries frequency 1 when the number of the batch's last header plus
  \<open>fsHeaderForceVerify = 24\<close> (in 64-bit unsigned arithmetic) exceeds the pivot, and
  \<open>fsHeaderCheckFrequency = 100\<close> otherwise. So frequency 100 is used only for batches
  ending at least 24 below the pivot, and frequency 1 for all later batches, also far
  above the pivot; every header numbered above pivot - 24 that is not above its batch's
  last header is in a batch inserted with frequency 1.
\<close>

theorem processHeaders_frequency:
  assumes "calls w = []"
    and "InsertHeaderChain chunk f \<in> set (calls (snd (processHeaders e smode w origin pivot td evs)))"
  shows "chunk \<noteq> [] \<and>
         f = (if Uint64 (Number (last chunk)) + 24 > pivot then 1 else 100) \<and>
         (\<forall>h\<in>set chunk. 0 \<le> Number h \<and> Number h \<le> Number (last chunk) \<and>
              Number (last chunk) + 24 < 2 ^ 64 \<and> int (unat pivot) < Number h + 24 \<longrightarrow> f = 1)"
proof -
  from assms(1) have "calls_ok pivot w" by (simp add: calls_ok_def)
  then have "calls_ok pivot (snd (processHeaders e smode w origin pivot td evs))"
    by (rule processHeaders_ok)
  with assms(2) have "verify_rule pivot (InsertHeaderChain chunk f)"
    by (simp add: calls_ok_def list_all_iff)
  then have ne: "chunk \<noteq> []"
    and f: "f = (if Uint64 (Number (last chunk)) + 24 > pivot then 1 else 100)"
    by (simp_all add: verify_rule_def)
  have "f = 1"
    if h: "0 \<le> Number h" "Number h \<le> Number (last chunk)"
      "Number (last chunk) + 24 < 2 ^ 64" "int (unat pivot) < Number h + 24" for h :: Header
  proof -
    from h have "unat (Uint64 (Number (last chunk)) + 24) = nat (Number (last chunk)) + 24"
      by (intro Uint64_plus_24) simp_all
    moreover from h have "unat pivot < nat (Number (last chunk)) + 24" by linarith
    ultimately have "Uint64 (Number (last chunk)) + 24 > pivot"
      by (simp add: word_less_nat_alt)
    with f show ?thesis by simp
  qed
  with ne f show ?thesis by blast
qed

theorem processHeaders_frequency_witness:
  "calls world0 = [] \<and>
   InsertHeaderChain [hdr 990] 1 \<in> set (calls (snd (processHeaders env_fresh FastSync world0 990 1000 0
     [HeaderBatch [hdr 990] [ChunkScript False []], HeaderBatch [] []]))) \<and>
   InsertHeaderChain [hdr 5] 100 \<in> set (calls (snd (processHeaders env_fresh FastSync world0 5 1000 0
     [HeaderBatch [hdr 5] [ChunkScript False []], HeaderBatch [] []]))) \<and>
   (100::int) = (if Uint64 (Number (last [hdr 5])) + 24 > 1000 then 1 else 100) \<and>
   0 \<le> Number (hdr 990) \<and> int (unat (1000::uint64)) < Number (hdr 990) + 24"
proof -
  have w0: "calls world0 = []" by (simp add: world0_def)
  have r1: "InsertHeaderChain [hdr 990] 1 \<in> set (calls (snd (processHeaders env_fresh FastSync world0 990 1000 0
     [HeaderBatch [hdr 990] [ChunkScript False []], HeaderBatch [] []])))"
    by code_simp
  have r2: "InsertHeaderChain [hdr 5] 100 \<in> set (calls (snd (processHeaders env_fresh FastSync world0 5 1000 0
     [HeaderBatch [hdr 5] [ChunkScript False []], HeaderBatch [] []])))"
    by code_simp
  show ?thesis
    using processHeaders_frequency [OF w0 r1] processHeaders_frequency [OF w0 r2] w0 r1 r2
    by (simp add: hdr_def)
qed


subsection \<open>processHeaders: the rollback list\<close>


lemma long_run:
  assumes len: "length xs = 2048"
  shows "processHeaders (env_reject 2048) FastSync world0 origin pivot td
           [HeaderBatch (xs @ [a, b]) [ChunkScript False [], ChunkScript False []]] =
         (Returned (Some ErrInvalidChain),
          \<lparr>calls = [InsertHeaderChain xs (chunkFrequency xs pivot), Schedule xs origin,
                    InsertHeaderChain [a, b] (chunkFrequency [a, b] pivot),
                    Rollback (map Hash (xs @ [a]))],
           ticks = 0, syncStatsChainHeight = 0\<rparr>)"
proof -
  have ne: "xs \<noteq> []" using len by auto
  have lim: "chunkLimit (xs @ [a, b]) = 2048"
    using len by (simp add: chunkLimit_def maxHeadersProcess_def)
  have lim2: "chunkLimit [a, b] = 2"
    by (simp add: chunkLimit_def maxHeadersProcess_def)
  show ?thesis
    using len ne
    by (simp add: processHeaders_def chunkStep_def lim lim2 insertChunk_def Let_def
          env_fresh_def env_reject_def world0_def record_call_def maxQueuedHeaders_def
          fsHeaderSafetyNet_def deferredRollback_def)
qed

text \<open>
  C1, as stated, fails twice. (1) A batch of headers 1, 2, 3 whose insertion fails at
  header 2 after inserting header 1: only header 1, the one before the offending header,
  is rolled back; headers 2 and 3 are not on the list. (2) After a successful batch of
  2048 unknown headers, a batch that fails after one inserted header leaves 2049 entries
  on the list, and all 2049 are passed to \<^verbatim>\<open>Rollback\<close>.
\<close>

theorem processHeaders_rollback_counterexample:
  "processHeaders (env_reject 0) FastSync world0 1 1000 10
     [HeaderBatch [hdr 1, hdr 2, hdr 3] [ChunkScript False []]] =
   (Returned (Some ErrInvalidChain),
    \<lparr>calls = [InsertHeaderChain [hdr 1, hdr 2, hdr 3] 100, Rollback [Hash (hdr 1)]],
     ticks = 0, syncStatsChainHeight = 0\<rparr>) \<and>
   Hash (hdr 2) \<notin> set [Hash (hdr 1)] \<and> Hash (hdr 3) \<notin> set [Hash (hdr 1)] \<and>
   processHeaders (env_reject 2048) FastSync world0 1 5000 10
     [HeaderBatch (hdrs 1 2049 @ [hdr 2049, hdr 2050])
        [ChunkScript False [], ChunkScript False []]] =
   (Returned (Some ErrInvalidChain),
    \<lparr>calls = [InsertHeaderChain (hdrs 1 2049) 100, Schedule (hdrs 1 2049) 1,
              InsertHeaderChain [hdr 2049, hdr 2050] 100,
              Rollback (map Hash (hdrs 1 2049 @ [hdr 2049]))],
     ticks = 0, syncStatsChainHeight = 0\<rparr>) \<and>
   length (map Hash (hdrs 1 2049 @ [hdr 2049])) = 2049 \<and> 2049 > fsHeaderSafetyNet"
proof -
  have small:
    "processHeaders (env_reject 0) FastSync world0 1 1000 10
       [HeaderBatch [hdr 1, hdr 2, hdr 3] [ChunkScript False []]] =
     (Returned (Some ErrInvalidChain),
      \<lparr>calls = [InsertHeaderChain [hdr 1, hdr 2, hdr 3] 100, Rollback [Hash (hdr 1)]],
       ticks = 0, syncStatsChainHeight = 0\<rparr>)"
    by code_simp
  have distinct: "Hash (hdr 2) \<notin> set [Hash (hdr 1)] \<and> Hash (hdr 3) \<notin> set [Hash (hdr 1)]"
    by (simp add: hdr_def)
  have len: "length (hdrs 1 2049) = 2048" by (simp add: hdrs_def)
  have "last (hdrs 1 2049) = hdr 2048"
    by (simp add: hdrs_def last_map)
  then have f1: "chunkFrequency (hdrs 1 2049) 5000 = 100"
    by (simp add: chunkFrequency_def hdr_def Uint64_def fsHeaderForceVerify_def
          fsHeaderCheckFrequency_def)
  have f2: "chunkFrequency [hdr 2049, hdr 2050] 5000 = 100"
    by (simp add: chunkFrequency_def hdr_def Uint64_def fsHeaderForceVerify_def
          fsHeaderCheckFrequency_def)
  have long:
    "processHeaders (env_reject 2048) FastSync world0 1 5000 10
     [HeaderBatch (hdrs 1 2049 @ [hdr 2049, hdr 2050])
        [ChunkScript False [], ChunkScript False []]] =
   (Returned (Some ErrInvalidChain),
    \<lparr>calls = [InsertHeaderChain (hdrs 1 2049) 100, Schedule (hdrs 1 2049) 1,
              InsertHeaderChain [hdr 2049, hdr 2050] 100,
              Rollback (map Hash (hdrs 1 2049 @ [hdr 2049]))],
     ticks = 0, syncStatsChainHeight = 0\<rparr>)"
    using long_run [OF len, of 1 5000 10 "hdr 2049" "hdr 2050"] f1 f2 by simp
  have "length (map Hash (hdrs 1 2049 @ [hdr 2049])) = 2049 \<and> 2049 > fsHeaderSafetyNet"
    using len by (simp add: fsHeaderSafetyNet_def)
  with small distinct long show ?thesis by (simp only: simp_thms)
qed

text \<open>
  C1, amended. When \<^verbatim>\<open>InsertHeaderChain\<close> fails on a batch at index \<open>n\<close>, the \<open>n\<close> headers
  of the batch before the offending one (those already inserted) are appended to the
  rollback list and the processor returns the invalid-chain error. After a successful
  batch its previously unknown headers are appended and the list is cut to its newest
  \<open>fsHeaderSafetyNet = 2048\<close> entries. When the processor returns or panics with a
  non-empty list, the hashes of all its entries are passed to \<^verbatim>\<open>Rollback\<close>.
\<close>

theorem processHeaders_rollback:
  "(chunk \<noteq> [] \<and> insertHeaderChain e w chunk (chunkFrequency chunk pivot) = (n, True) \<and>
      0 \<le> n \<and> n < int (length chunk) \<longrightarrow>
      insertChunk e w rollback chunk pivot =
        ChunkFail ErrInvalidChain (rollback @ take (nat n) chunk)
          (record_call (InsertHeaderChain chunk (chunkFrequency chunk pivot)) w)) \<and>
   (chunk \<noteq> [] \<and> insertHeaderChain e w chunk (chunkFrequency chunk pivot) = (n, False) \<longrightarrow>
      (\<exists>rb. insertChunk e w rollback chunk pivot =
              ChunkOk rb (record_call (InsertHeaderChain chunk (chunkFrequency chunk pivot)) w) \<and>
            length rb \<le> fsHeaderSafetyNet \<and>
            rb = drop (length (rollback @ filter (\<lambda>h. \<not> hasHeader e w (Hash h) (Uint64 (Number h))) chunk) - fsHeaderSafetyNet)
                   (rollback @ filter (\<lambda>h. \<not> hasHeader e w (Hash h) (Uint64 (Number h))) chunk))) \<and>
   (processLoop e smode pivot' td w0 [] origin False evs = (r, rb', w1) \<and> r \<noteq> Blocked \<longrightarrow>
      processHeaders e smode w0 origin pivot' td evs =
        (r, if rb' = [] then w1 else record_call (Rollback (map Hash rb')) w1))"
  by (auto simp: insertChunk_def Let_def processHeaders_def deferredRollback_def
           split: outcome.splits)


theorem processHeaders_rollback_witness:
  "insertChunk (env_reject 0) world0 [] [hdr 1, hdr 2, hdr 3] 1000 =
     ChunkFail ErrInvalidChain [hdr 1]
       (record_call (InsertHeaderChain [hdr 1, hdr 2, hdr 3] 100) world0) \<and>
   insertChunk env_fresh world0 [] [hdr 1, hdr 2] 1000 =
     ChunkOk [hdr 1, hdr 2] (record_call (InsertHeaderChain [hdr 1, hdr 2] 100) world0) \<and>
   processHeaders (env_reject 0) FastSync world0 1 1000 10
       [HeaderBatch [hdr 1, hdr 2, hdr 3] [ChunkScript False []]] =
     (Returned (Some ErrInvalidChain),
      record_call (Rollback [Hash (hdr 1)])
        (record_call (InsertHeaderChain [hdr 1, hdr 2, hdr 3] 100) world0))"
proof -
  have f3: "chunkFrequency [hdr 1, hdr 2, hdr 3] 1000 = 100"
    and f2: "chunkFrequency [hdr 1, hdr 2] 1000 = 100"
    by (simp_all add: chunkFrequency_def hdr_def Uint64_def fsHeaderForceVerify_def
          fsHeaderCheckFrequency_def)
  have fail: "insertHeaderChain (env_reject 0) world0 [hdr 1, hdr 2, hdr 3]
                 (chunkFrequency [hdr 1, hdr 2, hdr 3] 1000) = (1, True)"
    by (simp add: env_reject_def env_fresh_def)
  have ok: "insertHeaderChain env_fresh world0 [hdr 1, hdr 2]
                 (chunkFrequency [hdr 1, hdr 2] 1000) = (0, False)"
    by (simp add: env_fresh_def)
  have loop: "processLoop (env_reject 0) FastSync 1000 10 world0 [] 1 False
                [HeaderBatch [hdr 1, hdr 2, hdr 3] [ChunkScript False []]] =
              (Returned (Some ErrInvalidChain), [hdr 1],
               record_call (InsertHeaderChain [hdr 1, hdr 2, hdr 3] 100) world0)"
    by code_simp
  have nohdr: "filter (\<lambda>h. \<not> hasHeader env_fresh world0 (Hash h) (Uint64 (Number h)))
                 [hdr 1, hdr 2] = [hdr 1, hdr 2]"
    by (simp add: env_fresh_def)
  show ?thesis
    using processHeaders_rollback
            [where chunk = "[hdr 1, hdr 2, hdr 3]" and e = "env_reject 0" and w = world0
               and pivot = 1000 and n = 1 and rollback = "[]" and smode = FastSync
               and pivot' = 1000 and td = 10 and ?w0.0 = world0 and origin = 1
               and evs = "[HeaderBatch [hdr 1, hdr 2, hdr 3] [ChunkScript False []]]"
               and r = "Returned (Some ErrInvalidChain)" and rb' = "[hdr 1]"
               and ?w1.0 = "record_call (InsertHeaderChain [hdr 1, hdr 2, hdr 3] 100) world0"]
          processHeaders_rollback
            [where chunk = "[hdr 1, hdr 2]" and e = env_fresh and w = world0
               and pivot = 1000 and n = 0 and rollback = "[]"]
          fail ok loop nohdr f2 f3
    by (simp add: fsHeaderSafetyNet_def)
qed



subsection \<open>findAncestor: the ancestor floor\<close>

lemma sint_small:
  fixes w :: uint64
  assumes "unat w < 2 ^ 63"
  shows "sint w = int (unat w)"
proof -
  have "int (unat w) < int (2 ^ 63)"
    using assms by (simp only: of_nat_less_iff)
  then have lt: "uint w < 2 ^ 63"
    by (simp only: uint_nat of_nat_power of_nat_numeral)
  have "(0::int) \<le> 2 ^ 63" by (rule zero_le_power) simp
  then have "- (2 ^ 63) \<le> (0::int)" by (simp only: neg_le_0_iff_le)
  moreover have "0 \<le> uint w" by simp
  ultimately have ge: "- (2 ^ 63) \<le> uint w" by (rule order_trans)
  from ge lt have "signed_take_bit 63 (uint w) = uint w"
    by (rule signed_take_bit_int_eq_self)
  then show ?thesis
    by (simp add: sint_uint)
qed

lemma sint_nonneg:
  fixes w :: uint64
  assumes "0 \<le> sint w"
  shows "sint w = int (unat w)"
proof -
  have "sint w < 2 ^ 63"
    using sint_lt [of w] by simp
  moreover have "(2::int) ^ 63 \<le> 2 ^ 64" by (rule power_increasing) simp_all
  ultimately have "sint w < 2 ^ 64" by (rule less_le_trans)
  with assms have "take_bit 64 (sint w) = sint w"
    by (simp only: take_bit_int_eq_self)
  then have "uint w = sint w"
    using uint_sint [of w] by simp
  then show ?thesis by simp
qed


lemma checkFloor_bound:
  assumes small: "unat ceil < 2 ^ 63"
  shows "(checkFloor (ancestorFloor ep ceil) n = Inr m \<longrightarrow>
            m = n \<and> unat ceil - unat (MaxForkAncestry ep) \<le> unat n) \<and>
         (unat n < unat ceil - unat (MaxForkAncestry ep) \<longrightarrow>
            checkFloor (ancestorFloor ep ceil) n = Inl ErrInvalidAncestor)"
proof (cases "MaxForkAncestry ep \<le> ceil")
  case True
  then have fl: "ancestorFloor ep ceil = ceil - MaxForkAncestry ep"
    by (simp add: ancestorFloor_def)
  from True have u: "unat (ceil - MaxForkAncestry ep) = unat ceil - unat (MaxForkAncestry ep)"
    by (rule unat_sub)
  with small have "unat (ceil - MaxForkAncestry ep) < 2 ^ 63" by simp
  then have "sint (ceil - MaxForkAncestry ep) = int (unat (ceil - MaxForkAncestry ep))"
    by (rule sint_small)
  then have sf: "sint (ceil - MaxForkAncestry ep) = int (unat ceil - unat (MaxForkAncestry ep))"
    by (simp only: u)
  have a: "unat ceil - unat (MaxForkAncestry ep) \<le> unat n"
    if "\<not> word_sle n (ceil - MaxForkAncestry ep)"
  proof -
    from that have gt: "sint n > int (unat ceil - unat (MaxForkAncestry ep))"
      by (simp only: word_sle_eq sf not_le)
    then have "0 \<le> sint n" by linarith
    then have "sint n = int (unat n)" by (rule sint_nonneg)
    with gt have "int (unat ceil - unat (MaxForkAncestry ep)) < int (unat n)" by (simp only:)
    then show ?thesis by (simp only: of_nat_less_iff less_imp_le)
  qed
  have b: "word_sle n (ceil - MaxForkAncestry ep)"
    if "unat n < unat ceil - unat (MaxForkAncestry ep)"
  proof -
    from that small have "unat n < 2 ^ 63" by (rule_tac less_trans [of _ "unat ceil - unat (MaxForkAncestry ep)"]) simp_all
    then have "sint n = int (unat n)" by (rule sint_small)
    moreover from that have "int (unat n) \<le> int (unat ceil - unat (MaxForkAncestry ep))"
      by (simp only: of_nat_le_iff less_imp_le)
    ultimately show ?thesis by (simp only: word_sle_eq sf)
  qed
  from a b show ?thesis
    by (auto simp: checkFloor_def fl split: if_splits)
next
  case False
  then have "unat ceil - unat (MaxForkAncestry ep) = 0"
    by (simp add: word_le_nat_alt)
  then show ?thesis
    by (auto simp: checkFloor_def split: if_splits)
qed


lemma claimedFloor_nat:
  "claimedFloor ep ceil = int (unat ceil - unat (MaxForkAncestry ep))"
proof (cases "unat (MaxForkAncestry ep) \<le> unat ceil")
  case True
  then have "int (unat ceil - unat (MaxForkAncestry ep)) =
             int (unat ceil) - int (unat (MaxForkAncestry ep))"
    by (rule of_nat_diff)
  then show ?thesis by (simp add: claimedFloor_def)
next
  case False
  then have "unat ceil - unat (MaxForkAncestry ep) = 0" by simp
  moreover from False have "\<not> MaxForkAncestry ep \<le> ceil"
    by (simp add: word_le_nat_alt)
  then have "uint ceil - uint (MaxForkAncestry ep) \<le> 0"
    by (simp add: word_le_def)
  ultimately show ?thesis by (simp add: claimedFloor_def max_def)
qed

lemma findAncestor_found:
  assumes "headFetch c smode p (requestFrom (requestHead (localHead c smode) height))
             (localHead c smode) height evs = Returned (Inr (number, h), rest)"
    and "h \<noteq> 0"
  shows "findAncestor ep c smode p height evs =
           Returned (checkFloor (ancestorFloor ep (localHead c smode)) number)"
  using assms by (simp add: findAncestor_def Let_def)

lemma findAncestor_searched:
  assumes "headFetch c smode p (requestFrom (requestHead (localHead c smode) height))
             (localHead c smode) height evs = Returned (Inr (number, 0), rest)"
    and "searchLoop c smode p (searchStart (ancestorFloor ep (localHead c smode)))
             (requestHead (localHead c smode) height) rest = Returned (Inr s)"
  shows "findAncestor ep c smode p height evs =
           Returned (checkFloor (ancestorFloor ep (localHead c smode)) s)"
  using assms by (simp add: findAncestor_def Let_def)

lemma findAncestor_returns:
  assumes "findAncestor ep c smode p height evs = Returned (Inr n)"
  shows "\<exists>k. checkFloor (ancestorFloor ep (localHead c smode)) k = Inr n"
proof (cases "headFetch c smode p (requestFrom (requestHead (localHead c smode) height))
                (localHead c smode) height evs")
  case Blocked
  with assms show ?thesis by (simp add: findAncestor_def Let_def)
next
  case Panicked
  with assms show ?thesis by (simp add: findAncestor_def Let_def)
next
  case (Returned res)
  obtain r rest where res: "res = (r, rest)" by (cases res)
  show ?thesis
  proof (cases r)
    case (Inl err)
    with assms Returned res show ?thesis by (simp add: findAncestor_def Let_def)
  next
    case (Inr nh)
    obtain number h where nh: "nh = (number, h)" by (cases nh)
    show ?thesis
    proof (cases "h = 0")
      case False
      with assms findAncestor_found [of c smode p height evs number h rest ep]
        Returned res Inr nh
      show ?thesis by auto
    next
      case True
      note hf = Returned [unfolded res Inr nh True]
      show ?thesis
      proof (cases "searchLoop c smode p (searchStart (ancestorFloor ep (localHead c smode)))
                      (requestHead (localHead c smode) height) rest")
        case Blocked
        with assms hf show ?thesis by (simp add: findAncestor_def Let_def)
      next
        case Panicked
        with assms hf show ?thesis by (simp add: findAncestor_def Let_def)
      next
        case (Returned sr)
        show ?thesis
        proof (cases sr)
          case (Inl err)
          with assms hf Returned show ?thesis by (simp add: findAncestor_def Let_def)
        next
          case (Inr s)
          with assms findAncestor_searched [OF hf, of ep s] Returned
          show ?thesis by auto
        qed
      qed
    qed
  qed
qed

text \<open>
  C2. For every sync smode, with the local head below \<open>2^63\<close> (block numbers that fit
  the \<^verbatim>\<open>int64\<close> the code converts them to): an ancestor that \<open>findAncestor\<close> returns is
  never below \<open>floor = max(0, local_head - MaxForkAncestry)\<close>; when the head scan locates
  a known header below the floor the result is the invalid-ancestor error; and when the
  binary search ends below the floor, or at or below the code's signed floor, the result
  is the invalid-ancestor error.
\<close>

theorem findAncestor_floor:
  assumes small: "unat (localHead c smode) < 2 ^ 63"
  shows "(findAncestor ep c smode p height evs = Returned (Inr n) \<longrightarrow>
            claimedFloor ep (localHead c smode) \<le> uint n) \<and>
         (headFetch c smode p (requestFrom (requestHead (localHead c smode) height))
              (localHead c smode) height evs = Returned (Inr (number, h), rest) \<and> h \<noteq> 0 \<and>
            uint number < claimedFloor ep (localHead c smode) \<longrightarrow>
            findAncestor ep c smode p height evs = Returned (Inl ErrInvalidAncestor)) \<and>
         (headFetch c smode p (requestFrom (requestHead (localHead c smode) height))
              (localHead c smode) height evs = Returned (Inr (number, 0), rest) \<and>
            searchLoop c smode p (searchStart (ancestorFloor ep (localHead c smode)))
              (requestHead (localHead c smode) height) rest = Returned (Inr s) \<and>
            (uint s < claimedFloor ep (localHead c smode) \<or>
             word_sle s (ancestorFloor ep (localHead c smode))) \<longrightarrow>
            findAncestor ep c smode p height evs = Returned (Inl ErrInvalidAncestor))"
proof -
  note cf = checkFloor_bound [OF small, of ep]
  have A: "claimedFloor ep (localHead c smode) \<le> uint n"
    if "findAncestor ep c smode p height evs = Returned (Inr n)"
  proof -
    from findAncestor_returns [OF that]
    obtain k where "checkFloor (ancestorFloor ep (localHead c smode)) k = Inr n" ..
    with cf [of k n] have "unat (localHead c smode) - unat (MaxForkAncestry ep) \<le> unat n"
      by simp
    then have "int (unat (localHead c smode) - unat (MaxForkAncestry ep)) \<le> int (unat n)"
      by (simp only: of_nat_le_iff)
    then show ?thesis
      by (simp add: claimedFloor_nat)
  qed
  have low: "checkFloor (ancestorFloor ep (localHead c smode)) k = Inl ErrInvalidAncestor"
    if "uint k < claimedFloor ep (localHead c smode) \<or>
        word_sle k (ancestorFloor ep (localHead c smode))" for k
  proof (cases "word_sle k (ancestorFloor ep (localHead c smode))")
    case True
    then show ?thesis by (simp add: checkFloor_def)
  next
    case False
    with that have "uint k < claimedFloor ep (localHead c smode)" by simp
    then have "int (unat k) < int (unat (localHead c smode) - unat (MaxForkAncestry ep))"
      by (simp add: claimedFloor_nat)
    then have "unat k < unat (localHead c smode) - unat (MaxForkAncestry ep)"
      by (simp only: of_nat_less_iff)
    with cf [of k k] show ?thesis by simp
  qed
  show ?thesis
    using A low findAncestor_found [of c smode p height evs number h rest ep]
      findAncestor_searched [of c smode p height evs number rest ep s]
    by simp
qed


theorem findAncestor_floor_witness:
  "unat (localHead chain1 LightSync) < 2 ^ 63 \<and>
   findAncestor 30000 chain1 LightSync ''peer'' 100100
     [NetHeaders ''peer'' (reply 99808 19)] = Returned (Inr 100000) \<and>
   claimedFloor 30000 (localHead chain1 LightSync) = 10000 \<and>
   findAncestor 30000 chain1 LightSync ''peer'' 5000
     [NetHeaders ''peer'' (reply 4808 13)] = Returned (Inl ErrInvalidAncestor) \<and>
   findAncestor 30000 chain1 LightSync ''peer'' 200000 foreign_run =
     Returned (Inl ErrInvalidAncestor)"
proof -
  have head: "localHead chain1 LightSync = 100000"
    by (simp add: localHead_def chain1_def)
  have small: "unat (localHead chain1 LightSync) < 2 ^ 63"
    by (simp add: head)
  have fl: "claimedFloor 30000 (localHead chain1 LightSync) = 10000"
    by (simp add: head claimedFloor_def MaxForkAncestry_def)
  have runA: "findAncestor 30000 chain1 LightSync ''peer'' 100100
                [NetHeaders ''peer'' (reply 99808 19)] = Returned (Inr 100000)"
    by code_simp
  have scanB: "headFetch chain1 LightSync ''peer''
                 (requestFrom (requestHead (localHead chain1 LightSync) 5000))
                 (localHead chain1 LightSync) 5000 [NetHeaders ''peer'' (reply 4808 13)] =
               Returned (Inr (5000, 5000), [])"
    by code_simp
  have scanC: "headFetch chain1 LightSync ''peer''
                 (requestFrom (requestHead (localHead chain1 LightSync) 200000))
                 (localHead chain1 LightSync) 200000 foreign_run =
               Returned (Inr (0, 0), tl foreign_run)"
    by code_simp
  have searchC: "searchLoop chain1 LightSync ''peer''
                   (searchStart (ancestorFloor 30000 (localHead chain1 LightSync)))
                   (requestHead (localHead chain1 LightSync) 200000) (tl foreign_run) =
                 Returned (Inr 10000)"
    by code_simp
  have atfloor: "word_sle (10000::uint64) (ancestorFloor 30000 (localHead chain1 LightSync))"
    by code_simp
  have B: "findAncestor 30000 chain1 LightSync ''peer'' 5000
             [NetHeaders ''peer'' (reply 4808 13)] = Returned (Inl ErrInvalidAncestor)"
    using findAncestor_floor [OF small, where ep = 30000 and p = "''peer''" and height = 5000
        and evs = "[NetHeaders ''peer'' (reply 4808 13)]" and number = 5000 and h = 5000
        and rest = "[]"] scanB fl
    by simp
  have C: "findAncestor 30000 chain1 LightSync ''peer'' 200000 foreign_run =
             Returned (Inl ErrInvalidAncestor)"
    using findAncestor_floor [OF small, where ep = 30000 and p = "''peer''"
        and height = 200000 and evs = foreign_run and number = 0
        and rest = "tl foreign_run" and s = 10000] scanC searchC atfloor
    by simp
  from findAncestor_floor [OF small, where ep = 30000 and p = "''peer''" and height = 100100
        and evs = "[NetHeaders ''peer'' (reply 99808 19)]" and n = 100000] runA fl
  have "(10000::int) \<le> uint (100000::uint64)" by simp
  with small runA fl B C show ?thesis by simp
qed



subsection \<open>deliver\<close>


lemma deliver_no_sync:
  assumes "cancelCh d = None \<or> (chosen = CancelCase \<and> cancelCh d = Some True)"
  shows "\<exists>d'. deliver Items d i ch packet inM dropM chosen = Some (Some ErrNoSyncActive, d') \<and>
              inbound d' = inbound d \<and> cancelCh d' = cancelCh d \<and>
              meters d' = (\<lambda>m. meters d m + (if m = inM then Items packet else 0)
                                          + (if m = dropM then Items packet else 0))"
  using assms
  by (auto simp: deliver_def Let_def mark_def inbound_def fun_eq_iff)

lemma deliver_interrupted:
  assumes "deliver Items d i ch packet inM dropM chosen = Some (r, d')"
    and "cancelCh d = None \<or> chosen = CancelCase"
  shows "r = Some ErrNoSyncActive \<and> inbound d' = inbound d"
  using assms
  by (auto simp: deliver_def Let_def mark_def inbound_def split: option.splits if_splits)

lemma deliver_error:
  assumes "deliver Items d i ch packet inM dropM chosen = Some (Some e, d')"
  shows "e = ErrNoSyncActive \<and> inbound d' = inbound d"
  using assms
  by (auto simp: deliver_def Let_def mark_def inbound_def split: option.splits if_splits select_case.splits)


text \<open>
  C9. When no synchronisation is active (the cancel channel is nil), or when the select
  takes the cancel case (the channel has been closed while the packet waited), each of
  the four deliveries returns the no-sync-active error, and the four inbound channels are
  as before: the packet is neither buffered nor handed to a receiver.
\<close>

theorem Deliver_no_sync_active:
  assumes "cancelCh d = None \<or> (chosen = CancelCase \<and> cancelCh d = Some True)"
  shows "(\<exists>d'. DeliverHeaders Items d i headers chosen = Some (Some ErrNoSyncActive, d') \<and>
               inbound d' = inbound d) \<and>
         (\<exists>d'. DeliverBodies Items d i transactions uncles chosen =
                 Some (Some ErrNoSyncActive, d') \<and> inbound d' = inbound d) \<and>
         (\<exists>d'. DeliverReceipts Items d i receipts chosen = Some (Some ErrNoSyncActive, d') \<and>
               inbound d' = inbound d) \<and>
         (\<exists>d'. DeliverNodeData Items d i data chosen = Some (Some ErrNoSyncActive, d') \<and>
               inbound d' = inbound d)"
  using deliver_no_sync [OF assms, of Items]
  unfolding DeliverHeaders_def DeliverBodies_def DeliverReceipts_def DeliverNodeData_def
  by blast

theorem Deliver_no_sync_active_witness:
  "cancelCh (newDownloader FullSync) = None \<and>
   cancelCh ((newDownloader FullSync)\<lparr>cancelCh := Some True\<rparr>) = Some True \<and>
   map_option (\<lambda>r. (fst r, inbound (snd r)))
     (DeliverHeaders itemCount (newDownloader FullSync) ''peer'' [hdr 1] SendCase) =
     Some (Some ErrNoSyncActive, inbound (newDownloader FullSync)) \<and>
   map_option (\<lambda>r. (fst r, inbound (snd r)))
     (DeliverNodeData itemCount ((newDownloader FullSync)\<lparr>cancelCh := Some True\<rparr>)
        ''peer'' [[1, 2]] CancelCase) =
     Some (Some ErrNoSyncActive, inbound (newDownloader FullSync))"
proof -
  have n: "cancelCh (newDownloader FullSync) = None"
    by (simp add: newDownloader_def)
  have c: "cancelCh ((newDownloader FullSync)\<lparr>cancelCh := Some True\<rparr>) = Some True"
    by simp
  have same: "inbound ((newDownloader FullSync)\<lparr>cancelCh := Some True\<rparr>) =
              inbound (newDownloader FullSync)"
    by (simp add: inbound_def)
  from Deliver_no_sync_active [of "newDownloader FullSync" SendCase itemCount "''peer''" "[hdr 1]"]
    n
  have 1: "map_option (\<lambda>r. (fst r, inbound (snd r)))
     (DeliverHeaders itemCount (newDownloader FullSync) ''peer'' [hdr 1] SendCase) =
     Some (Some ErrNoSyncActive, inbound (newDownloader FullSync))"
    by auto
  from Deliver_no_sync_active
         [of "(newDownloader FullSync)\<lparr>cancelCh := Some True\<rparr>" CancelCase itemCount
             "''peer''" _ _ _ _ "[[1, 2]]"] c same
  have 2: "map_option (\<lambda>r. (fst r, inbound (snd r)))
     (DeliverNodeData itemCount ((newDownloader FullSync)\<lparr>cancelCh := Some True\<rparr>)
        ''peer'' [[1, 2]] CancelCase) =
     Some (Some ErrNoSyncActive, inbound (newDownloader FullSync))"
    by auto
  from n c 1 2 show ?thesis by simp
qed


subsection \<open>synchronise: one cycle at a time\<close>


lemma enterCycle_flag:
  "enterCycle d i m = Some d1 \<Longrightarrow>
     synchronising d = 0 \<and> synchronising d1 = 1 \<and> synchroniseMock d1 = synchroniseMock d"
  by (auto simp: enterCycle_def split: if_splits)

lemma leaveCycle_flag:
  "synchronising (leaveCycle d) = 0 \<and> synchroniseMock (leaveCycle d) = synchroniseMock d"
  by (simp add: leaveCycle_def cancel_def split: option.splits)

lemma step_exclusive:
  assumes k: "keeps_flag cyc" and inv: "exclusive s" and st: "step cyc s a = Some s1"
  shows "exclusive s1"
proof (cases a)
  case (Call t i h td m)
  show ?thesis
  proof (cases "pcs s t")
    case Idle
    from inv have "synchroniseMock (dl s) = None" by (simp add: exclusive_def)
    with st Call Idle have s1: "s1 = s\<lparr>pcs := (pcs s)(t := Called i h td m)\<rparr>"
      by (simp add: step_def)
    from Idle have "\<And>u. active (((pcs s)(t := Called i h td m)) u) = active (pcs s u)"
      by simp
    with inv show ?thesis unfolding s1 exclusive_def by simp
  qed (use st Call in \<open>simp_all add: step_def\<close>)
next
  case (Enter t)
  show ?thesis
  proof (cases "pcs s t")
    case (Called i h td m)
    show ?thesis
    proof (cases "enterCycle (dl s) i m")
      case None
      with st Enter Called have s1: "s1 = s\<lparr>pcs := (pcs s)(t := Done (Some ErrBusy))\<rparr>"
        by (simp add: step_def)
      from Called have "\<And>u. active (((pcs s)(t := Done (Some ErrBusy))) u) = active (pcs s u)"
        by simp
      with inv show ?thesis unfolding s1 exclusive_def by simp
    next
      case (Some d1)
      from enterCycle_flag [OF Some] have f: "synchronising (dl s) = 0" "synchronising d1 = 1"
        "synchroniseMock d1 = synchroniseMock (dl s)" by simp_all
      from inv f have none: "\<forall>t. \<not> active (pcs s t)" by (auto simp: exclusive_def)
      from st Enter Called Some have s1: "s1 = s\<lparr>dl := d1, pcs := (pcs s)(t := InCycle i h td)\<rparr>"
        by (simp add: step_def)
      show ?thesis
        using inv f none unfolding s1
        by (auto simp: exclusive_def)
    qed
  qed (use st Enter in \<open>simp_all add: step_def\<close>)
next
  case (Leave t)
  show ?thesis
  proof (cases "pcs s t")
    case (InCycle i h td)
    obtain r d2 where c: "cyc (dl s) i h td = (r, d2)" by (cases "cyc (dl s) i h td")
    from k c have kf: "synchroniseMock d2 = synchroniseMock (dl s)"
      unfolding keeps_flag_def by (metis snd_conv)
    from st Leave InCycle c have s1: "s1 = s\<lparr>dl := leaveCycle d2, pcs := (pcs s)(t := Done r)\<rparr>"
      by (simp add: step_def)
    from InCycle have "active (pcs s t)" by simp
    with inv have only: "\<forall>u. active (pcs s u) \<longrightarrow> u = t"
      unfolding exclusive_def by blast
    show ?thesis
      using inv kf only leaveCycle_flag [of d2] unfolding s1
      by (auto simp: exclusive_def)
  qed (use st Leave in \<open>simp_all add: step_def\<close>)
qed

lemma run_exclusive:
  "keeps_flag cyc \<Longrightarrow> exclusive s \<Longrightarrow> run cyc s acts = Some s1 \<Longrightarrow> exclusive s1"
proof (induction acts arbitrary: s)
  case Nil
  then show ?case by simp
next
  case (Cons a acts)
  then show ?case
    by (auto split: option.splits dest: step_exclusive)
qed


lemma run_snoc:
  "run cyc s (acts @ [a]) = (case run cyc s acts of None \<Rightarrow> None | Some s1 \<Rightarrow> step cyc s1 a)"
  by (induction acts arbitrary: s) (auto split: option.splits)

lemma synchronise_busy:
  "synchroniseMock d = None \<Longrightarrow> synchronising d \<noteq> 0 \<Longrightarrow>
   synchronise cyc d i h td m = (Some ErrBusy, d)"
  by (simp add: synchronise_def enterCycle_def)

text \<open>
  C8, as stated, fails in its last part: two calls are both under way (both past the
  mock check), the first runs its whole cycle and releases the flag before the second
  reaches the compare-and-swap, and neither returns Busy.
\<close>

theorem synchronise_busy_counterexample:
  "map_option (\<lambda>s. (pcs s 1, pcs s 2))
     (run unknownPeer system0 [Call 1 ''a'' 7 10 FullSync, Call 2 ''b'' 8 10 FullSync]) =
     Some (Called ''a'' 7 10 FullSync, Called ''b'' 8 10 FullSync) \<and>
   map_option (\<lambda>s. (pcs s 1, pcs s 2))
     (run unknownPeer system0
        [Call 1 ''a'' 7 10 FullSync, Call 2 ''b'' 8 10 FullSync,
         Enter 1, Leave 1, Enter 2, Leave 2]) =
     Some (Done (Some ErrUnknownPeer), Done (Some ErrUnknownPeer)) \<and>
   Some ErrUnknownPeer \<noteq> Some ErrBusy"
  by (simp add: step_def system0_def newDownloader_def unknownPeer_def enterCycle_def
        leaveCycle_def cancel_def)

text \<open>
  C8, amended. At most one synchronise cycle is active per Downloader: in every
  interleaving of calls (no test mock installed) at most one call is inside its cycle;
  a call whose compare-and-swap runs while another call's cycle is active returns Busy
  and leaves the downloader unchanged, so no new cycle starts; and seen sequentially, a
  call made while the flag is set returns Busy with the state unchanged. (Two concurrent
  calls may both complete without Busy when one finishes before the other's
  compare-and-swap.)
\<close>

theorem synchronise_exclusive:
  assumes "keeps_flag cyc" and "exclusive s0" and "run cyc s0 acts = Some s"
  shows "(\<forall>t u. active (pcs s t) \<and> active (pcs s u) \<longrightarrow> t = u) \<and>
         (\<forall>t u i h td m. active (pcs s u) \<and> pcs s t = Called i h td m \<longrightarrow>
            step cyc s (Enter t) = Some (s\<lparr>pcs := (pcs s)(t := Done (Some ErrBusy))\<rparr>)) \<and>
         (\<forall>d i h td m. synchroniseMock d = None \<and> synchronising d \<noteq> 0 \<longrightarrow>
            synchronise cyc d i h td m = (Some ErrBusy, d))"
proof -
  have inv: "exclusive s"
    using assms by (rule run_exclusive)
  then have one: "\<forall>t u. active (pcs s t) \<and> active (pcs s u) \<longrightarrow> t = u"
    by (simp add: exclusive_def)
  have busy: "step cyc s (Enter t) = Some (s\<lparr>pcs := (pcs s)(t := Done (Some ErrBusy))\<rparr>)"
    if "active (pcs s u)" and "pcs s t = Called i h td m" for t u i h td m
  proof -
    from inv that(1) have "synchronising (dl s) \<noteq> 0"
      unfolding exclusive_def by blast
    then have "enterCycle (dl s) i m = None" by (simp add: enterCycle_def)
    with that(2) show ?thesis by (simp add: step_def)
  qed
  from one busy synchronise_busy show ?thesis by blast
qed

theorem synchronise_exclusive_witness:
  "keeps_flag unknownPeer \<and> exclusive system0 \<and>
   map_option (\<lambda>s. (pcs s 1, pcs s 2, synchronising (dl s)))
     (run unknownPeer system0
        ([Call 1 ''a'' 7 10 FullSync, Call 2 ''b'' 8 10 FullSync, Enter 1] @ [Enter 2])) =
     Some (InCycle ''a'' 7 10, Done (Some ErrBusy), 1)"
proof -
  have k: "keeps_flag unknownPeer"
    by (simp add: keeps_flag_def unknownPeer_def)
  have e: "exclusive system0"
    by (simp add: exclusive_def system0_def newDownloader_def)
  obtain s where r: "run unknownPeer system0
        [Call 1 ''a'' 7 10 FullSync, Call 2 ''b'' 8 10 FullSync, Enter 1] = Some s"
    and p1: "pcs s 1 = InCycle ''a'' 7 10" and p2: "pcs s 2 = Called ''b'' 8 10 FullSync"
    and f: "synchronising (dl s) = 1"
    by (simp add: step_def system0_def newDownloader_def enterCycle_def)
  from p1 have a: "active (pcs s 1)" by simp
  from synchronise_exclusive [OF k e r] a p2
  have "step unknownPeer s (Enter 2) = Some (s\<lparr>pcs := (pcs s)(2 := Done (Some ErrBusy))\<rparr>)"
    by blast
  with r p1 f k e show ?thesis
    by (simp only: run_snoc) simp
qed



subsection \<open>The RTT estimator\<close>


lemma int64_id: "- (2 ^ 63) \<le> k \<Longrightarrow> k < 2 ^ 63 \<Longrightarrow> int64 k = k"
  by (simp add: int64_def)

lemma to_uint64_id: "0 \<le> k \<Longrightarrow> k < 2 ^ 64 \<Longrightarrow> to_uint64 k = nat k"
  by (simp add: to_uint64_def)

lemma rounding_mono: "rounding fl \<Longrightarrow> x \<le> y \<Longrightarrow> fl x \<le> fl y"
  by (simp add: rounding_def)

lemma rounding_int:
  assumes "rounding fl" and "\<bar>k\<bar> \<le> 2 ^ 45"
  shows "fl (of_int k) = of_int k"
proof -
  from assms(2) have "\<bar>32 * k\<bar> \<le> 2 ^ 50" by simp
  with assms(1) have "fl (of_int (32 * k) / 32) = of_int (32 * k) / 32"
    unfolding rounding_def by blast
  then show ?thesis by simp
qed

lemma rounding_frac:
  assumes "rounding fl"
  shows "fl (1 / 4) = 1 / 4" "fl (3 / 4) = 3 / 4" "fl (1 / 32) = 1 / 32" "fl (1 / 8) = 1 / 8"
    "fl (1 / 16) = 1 / 16"
proof -
  have e: "fl (of_int k / 32) = of_int k / 32" if "\<bar>k\<bar> \<le> 2 ^ 50" for k :: int
    using assms that unfolding rounding_def by blast
  from e [of 8] show "fl (1 / 4) = 1 / 4" by simp
  from e [of 24] show "fl (3 / 4) = 3 / 4" by simp
  from e [of 1] show "fl (1 / 32) = 1 / 32" by simp
  from e [of 4] show "fl (1 / 8) = 1 / 8" by simp
  from e [of 2] show "fl (1 / 16) = 1 / 16" by simp
qed


lemma rounding_nat:
  assumes "rounding fl" and "n \<le> 2 ^ 45"
  shows "fl (real n) = real n"
proof -
  from assms(2) have "\<bar>int n\<bar> \<le> 2 ^ 45" by simp
  from rounding_int [OF assms(1) this] show ?thesis by simp
qed

lemma rounding_between:
  assumes r: "rounding fl" and lo: "of_int a \<le> x" and hi: "x \<le> of_int b"
    and a: "\<bar>a\<bar> \<le> 2 ^ 45" and b: "\<bar>b\<bar> \<le> 2 ^ 45"
  shows "of_int a \<le> fl x \<and> fl x \<le> of_int b"
proof -
  from rounding_mono [OF r lo] rounding_int [OF r a] have "of_int a \<le> fl x" by simp
  moreover from rounding_mono [OF r hi] rounding_int [OF r b] have "fl x \<le> of_int b" by simp
  ultimately show ?thesis ..
qed

lemma trunc_between:
  assumes "of_int a \<le> x" and "x \<le> of_int b" and "0 \<le> a"
  shows "a \<le> truncToZero x \<and> truncToZero x \<le> b"
proof -
  from assms(1,3) have "0 \<le> x" by (meson of_int_0_le_iff order_trans)
  then have t: "truncToZero x = \<lfloor>x\<rfloor>" by (simp add: truncToZero_def)
  from assms(1) have "a \<le> \<lfloor>x\<rfloor>" by (simp add: le_floor_iff)
  moreover from assms(2) have "\<lfloor>x\<rfloor> \<le> b" by (simp add: floor_le_iff)
  ultimately show ?thesis by (simp add: t)
qed


lemma qosTuner_pass_ok:
  assumes r: "rounding fl" and ok: "qos_ok s"
    and m: "rttMinEstimate \<le> median" "median \<le> rttMaxEstimate"
  shows "qos_ok (qosTuner_pass fl median s)"
proof -
  from ok have e: "2000000000 \<le> rttEstimate s" "rttEstimate s \<le> 20000000000"
    and c: "31250 \<le> rttConfidence s" "rttConfidence s \<le> 1000000"
    by (simp_all add: qos_ok_def rttMinEstimate_def rttMaxEstimate_def)
  from m have md: "2000000000 \<le> median" "median \<le> 20000000000"
    by (simp_all add: rttMinEstimate_def rttMaxEstimate_def)
  have q1: "qosTuningImpact fl = 1 / 4"
    by (simp only: qosTuningImpact_def rounding_frac [OF r])
  have "1 - (1 / 4 :: real) = 3 / 4" by simp
  then have q2: "fl (1 - qosTuningImpact fl) = 3 / 4"
    by (simp only: q1 rounding_frac [OF r])
  note q = q1 q2
  from e have fe: "fl (real (rttEstimate s)) = real (rttEstimate s)"
    by (intro rounding_nat [OF r]) simp
  have eq1: "fl (fl (1 - qosTuningImpact fl) * fl (real (rttEstimate s))) =
             fl (3 / 4 * real (rttEstimate s))"
    by (simp only: q2 fe)
  from e have "real_of_int 1500000000 \<le> 3 / 4 * real (rttEstimate s)"
    "3 / 4 * real (rttEstimate s) \<le> real_of_int 15000000000" by simp_all
  then have "real_of_int 1500000000 \<le> fl (3 / 4 * real (rttEstimate s)) \<and>
             fl (3 / 4 * real (rttEstimate s)) \<le> real_of_int 15000000000"
    by (intro rounding_between [OF r]) simp_all
  then have p1: "real_of_int 1500000000 \<le> fl (fl (1 - qosTuningImpact fl) * fl (real (rttEstimate s)))"
      "fl (fl (1 - qosTuningImpact fl) * fl (real (rttEstimate s))) \<le> real_of_int 15000000000"
    unfolding eq1 by blast+
  from md have fm: "fl (of_int median) = of_int median"
    by (intro rounding_int [OF r]) simp
  have eq2: "fl (qosTuningImpact fl * fl (of_int median)) = fl (1 / 4 * of_int median)"
    by (simp only: q1 fm)
  from md have "real_of_int 500000000 \<le> 1 / 4 * of_int median"
    "1 / 4 * of_int median \<le> real_of_int 5000000000" by simp_all
  then have "real_of_int 500000000 \<le> fl (1 / 4 * of_int median) \<and>
             fl (1 / 4 * of_int median) \<le> real_of_int 5000000000"
    by (intro rounding_between [OF r]) simp_all
  then have p2: "real_of_int 500000000 \<le> fl (qosTuningImpact fl * fl (of_int median))"
      "fl (qosTuningImpact fl * fl (of_int median)) \<le> real_of_int 5000000000"
    unfolding eq2 by blast+
  define x where "x = fl (fl (1 - qosTuningImpact fl) * fl (real (rttEstimate s))) +
                      fl (qosTuningImpact fl * fl (of_int median))"
  from p1 p2 have "real_of_int 2000000000 \<le> x" "x \<le> real_of_int 20000000000"
    by (simp_all add: x_def)
  then have "real_of_int 2000000000 \<le> fl x \<and> fl x \<le> real_of_int 20000000000"
    by (intro rounding_between [OF r]) simp_all
  then have t: "2000000000 \<le> truncToZero (fl x) \<and> truncToZero (fl x) \<le> 20000000000"
    by (intro trunc_between) simp_all
  then have "int64 (truncToZero (fl x)) = truncToZero (fl x)"
    by (intro int64_id) simp_all
  moreover from t have "to_uint64 (truncToZero (fl x)) = nat (truncToZero (fl x))"
    by (intro to_uint64_id) simp_all
  ultimately have est: "rttEstimate (qosTuner_pass fl median s) = nat (truncToZero (fl x))"
    by (simp add: qosTuner_pass_def Let_def x_def)
  from c have "(1000000 + 2 ^ 64 - rttConfidence s) mod 2 ^ 64 = 1000000 - rttConfidence s"
    by (simp add: mod_if)
  with c have conf: "rttConfidence (qosTuner_pass fl median s) =
      rttConfidence s + (1000000 - rttConfidence s) div 2"
    by (simp add: qosTuner_pass_def Let_def)
  from t have tn: "2000000000 \<le> nat (truncToZero (fl x))"
      "nat (truncToZero (fl x)) \<le> 20000000000" by linarith+
  from c have cn: "rttConfidence s + (1000000 - rttConfidence s) div 2 \<le> 1000000"
      "31250 \<le> rttConfidence s + (1000000 - rttConfidence s) div 2" by linarith+
  from tn cn est conf show ?thesis
    by (simp add: qos_ok_def rttMinEstimate_def rttMaxEstimate_def)
qed

lemma qosReduceConfidence_ok:
  assumes r: "rounding fl" and ok: "qos_ok s"
  shows "qos_ok (qosReduceConfidence fl peers s)"
proof -
  from ok have c: "31250 \<le> rttConfidence s" "rttConfidence s \<le> 1000000"
    by (simp_all add: qos_ok_def)
  consider "peers = 0" | "peers = 1" | "peers \<ge> 10" | "2 \<le> peers" "peers < 10"
    by linarith
  then show ?thesis
  proof cases
    case 1
    with ok show ?thesis by (simp add: qosReduceConfidence_def)
  next
    case 2
    with ok show ?thesis by (simp add: qosReduceConfidence_def qos_ok_def)
  next
    case 3
    with ok show ?thesis by (simp add: qosReduceConfidence_def qosConfidenceCap_def)
  next
    case 4
    define conf where "conf = ((rttConfidence s * (peers - 1)) mod 2 ^ 64) div peers"
    from c 4 have "rttConfidence s * (peers - 1) \<le> 1000000 * 9"
      by (intro mult_mono) simp_all
    then have "(rttConfidence s * (peers - 1)) mod 2 ^ 64 = rttConfidence s * (peers - 1)"
      by simp
    then have conf_eq: "conf = (rttConfidence s * (peers - 1)) div peers"
      by (simp add: conf_def)
    have "rttConfidence s * (peers - 1) \<le> rttConfidence s * peers" by simp
    then have "conf \<le> (rttConfidence s * peers) div peers"
      unfolding conf_eq by (rule div_le_mono)
    with 4 c have hi: "conf \<le> 1000000" by simp
    have m: "1 / 16 \<le> rttMinConfidence fl" "rttMinConfidence fl \<le> 1 / 8"
      using rounding_mono [OF r, of "1 / 16" "1 / 10"] rounding_mono [OF r, of "1 / 10" "1 / 8"]
        rounding_frac [OF r]
      by (simp_all add: rttMinConfidence_def)
    define conf' where "conf' = (if fl (fl (real conf) / 1000000) < rttMinConfidence fl
                     then to_uint64 (truncToZero (fl (rttMinConfidence fl * 1000000)))
                     else conf)"
    have res: "qosReduceConfidence fl peers s = s\<lparr>rttConfidence := conf'\<rparr>"
      using 4 by (simp add: qosReduceConfidence_def qosConfidenceCap_def Let_def conf_def conf'_def)
    have "31250 \<le> conf' \<and> conf' \<le> 1000000"
    proof (cases "fl (fl (real conf) / 1000000) < rttMinConfidence fl")
      case True
      from m have "real_of_int 62500 \<le> rttMinConfidence fl * 1000000"
        "rttMinConfidence fl * 1000000 \<le> real_of_int 125000" by simp_all
      then have "real_of_int 62500 \<le> fl (rttMinConfidence fl * 1000000) \<and>
                 fl (rttMinConfidence fl * 1000000) \<le> real_of_int 125000"
        by (intro rounding_between [OF r]) simp_all
      then have t: "62500 \<le> truncToZero (fl (rttMinConfidence fl * 1000000)) \<and>
                 truncToZero (fl (rttMinConfidence fl * 1000000)) \<le> 125000"
        by (intro trunc_between) simp_all
      then have "to_uint64 (truncToZero (fl (rttMinConfidence fl * 1000000))) =
                 nat (truncToZero (fl (rttMinConfidence fl * 1000000)))"
        by (intro to_uint64_id) simp_all
      with t True show ?thesis by (simp add: conf'_def) linarith
    next
      case False
      have "31250 \<le> conf"
      proof (rule ccontr)
        assume "\<not> 31250 \<le> conf"
        then have lt: "conf < 31250" by simp
        then have "fl (real conf) = real conf"
          by (intro rounding_nat [OF r]) simp
        moreover from lt have "real conf / 1000000 \<le> 1 / 32" by simp
        ultimately have "fl (fl (real conf) / 1000000) \<le> fl (1 / 32)"
          using rounding_mono [OF r, of "real conf / 1000000" "1 / 32"] by simp
        then have "fl (fl (real conf) / 1000000) \<le> 1 / 32"
          by (simp only: rounding_frac [OF r])
        with m(1) have "fl (fl (real conf) / 1000000) < rttMinConfidence fl" by simp
        with False show False by simp
      qed
      with hi False show ?thesis by (simp add: conf'_def)
    qed
    with ok show ?thesis
      by (simp add: res qos_ok_def)
  qed
qed

lemma requestTTL_ok:
  assumes r: "rounding fl" and ok: "qos_ok s"
  shows "rttMinEstimate * ttlScaling \<le> requestTTL fl s \<and> requestTTL fl s \<le> ttlLimit"
proof -
  from ok have e: "2000000000 \<le> rttEstimate s" "rttEstimate s \<le> 20000000000"
    and c: "31250 \<le> rttConfidence s" "rttConfidence s \<le> 1000000"
    by (simp_all add: qos_ok_def rttMinEstimate_def rttMaxEstimate_def)
  define conf where "conf = fl (fl (real (rttConfidence s)) / 1000000)"
  define q where "q = fl (fl (of_int (int64 (int (rttEstimate s)))) / conf)"
  from e have rtt: "int64 (int (rttEstimate s)) = int (rttEstimate s)"
    by (intro int64_id) simp_all
  from e have fe: "fl (real (rttEstimate s)) = real (rttEstimate s)"
    by (intro rounding_nat [OF r]) simp
  from c have "fl (real (rttConfidence s)) = real (rttConfidence s)"
    by (intro rounding_nat [OF r]) simp
  then have conf_eq: "conf = fl (real (rttConfidence s) / 1000000)"
    by (simp only: conf_def)
  from c have c1: "1 / 32 \<le> real (rttConfidence s) / 1000000"
    and c2: "real (rttConfidence s) / 1000000 \<le> real_of_int 1" by simp_all
  have "fl (1 / 32) \<le> conf" "conf \<le> fl (real_of_int 1)"
    unfolding conf_eq using rounding_mono [OF r c1] rounding_mono [OF r c2] by blast+
  moreover have "fl (real_of_int 1) = real_of_int 1"
    by (intro rounding_int [OF r]) simp
  ultimately have cb: "1 / 32 \<le> conf" "conf \<le> 1"
    by (simp_all only: rounding_frac [OF r] of_int_1)
  then have cpos: "0 < conf" by simp
  have q_eq: "q = fl (real (rttEstimate s) / conf)"
    by (simp only: q_def rtt fe of_int_of_nat_eq)
  have lo: "real_of_int 2000000000 \<le> real (rttEstimate s) / conf"
  proof -
    from cb cpos have "real (rttEstimate s) / 1 \<le> real (rttEstimate s) / conf"
      by (intro divide_left_mono) simp_all
    with e show ?thesis by simp
  qed
  have hi: "real (rttEstimate s) / conf \<le> real_of_int 640000000000"
  proof -
    from cb cpos have "real (rttEstimate s) / conf \<le> real (rttEstimate s) / (1 / 32)"
      by (intro divide_left_mono) simp_all
    with e show ?thesis by simp
  qed
  from lo hi have "real_of_int 2000000000 \<le> q \<and> q \<le> real_of_int 640000000000"
    unfolding q_eq by (intro rounding_between [OF r]) simp_all
  then have t: "2000000000 \<le> truncToZero q \<and> truncToZero q \<le> 640000000000"
    by (intro trunc_between) simp_all
  then have i1: "int64 (truncToZero q) = truncToZero q"
    by (intro int64_id) simp_all
  from t have i2: "int64 (3 * truncToZero q) = 3 * truncToZero q"
    by (intro int64_id) simp_all
  have "requestTTL fl s =
          (if 3 * truncToZero q > ttlLimit then ttlLimit else 3 * truncToZero q)"
    by (simp add: requestTTL_def Let_def ttlScaling_def q_def conf_def i1 [unfolded q_def conf_def]
          i2 [unfolded q_def conf_def])
  with t show ?thesis
    by (simp add: rttMinEstimate_def ttlScaling_def ttlLimit_def)
qed

lemma qos_run_ok:
  assumes r: "rounding fl"
  shows "qos_ok s \<Longrightarrow>
         \<forall>ev\<in>set evs. \<forall>m. median_of ev = Some m \<longrightarrow> rttMinEstimate \<le> m \<and> m \<le> rttMaxEstimate \<Longrightarrow>
         qos_ok (qos_run fl s evs)"
proof (induction evs arbitrary: s)
  case Nil
  then show ?case by simp
next
  case (Cons ev evs)
  show ?case
  proof (cases ev)
    case (Tuned m)
    with Cons.prems have "rttMinEstimate \<le> m" "m \<le> rttMaxEstimate" by simp_all
    from qosTuner_pass_ok [OF r Cons.prems(1) this] Cons.IH Cons.prems(2) Tuned
    show ?thesis by simp
  next
    case (PeerJoined n)
    from qosReduceConfidence_ok [OF r Cons.prems(1), of n] Cons.IH Cons.prems(2) PeerJoined
    show ?thesis by simp
  qed
qed

lemma qos_init_ok: "qos_ok qos_init"
  by (simp add: qos_ok_def qos_init_def rttMinEstimate_def rttMaxEstimate_def)

text \<open>
  C5. Starting from the initial values and after any sequence of tuner passes and
  confidence reductions, \<open>requestTTL\<close> lies between \<open>rttMinEstimate * ttlScaling\<close> and
  \<open>ttlLimit\<close>. The float arithmetic is taken with any rounding that is monotone and exact
  on the multiples of 1/32 in range, and the medians the tuner reads from the peer set
  are taken to lie between \<open>rttMinEstimate\<close> and \<open>rttMaxEstimate\<close>.
\<close>

theorem requestTTL_clamp:
  assumes "rounding fl"
    and "\<forall>ev\<in>set evs. \<forall>m. median_of ev = Some m \<longrightarrow> rttMinEstimate \<le> m \<and> m \<le> rttMaxEstimate"
  shows "rttMinEstimate * ttlScaling \<le> requestTTL fl (qos_run fl qos_init evs) \<and>
         requestTTL fl (qos_run fl qos_init evs) \<le> ttlLimit"
  using requestTTL_ok [OF assms(1) qos_run_ok [OF assms(1) qos_init_ok assms(2)]] .

theorem requestTTL_clamp_witness:
  "rounding (\<lambda>x. x) \<and>
   rttMinEstimate \<le> 3000000000 \<and> 3000000000 \<le> rttMaxEstimate \<and>
   rttMinEstimate * ttlScaling \<le>
     requestTTL (\<lambda>x. x) (qos_run (\<lambda>x. x) qos_init [Tuned 3000000000, PeerJoined 3]) \<and>
   requestTTL (\<lambda>x. x) (qos_run (\<lambda>x. x) qos_init [Tuned 3000000000, PeerJoined 3]) \<le> ttlLimit"
proof -
  have r: "rounding (\<lambda>x. x)" by (simp add: rounding_def)
  have m: "rttMinEstimate \<le> 3000000000 \<and> 3000000000 \<le> rttMaxEstimate"
    by (simp add: rttMinEstimate_def rttMaxEstimate_def)
  then have "\<forall>ev\<in>set [Tuned 3000000000, PeerJoined 3]. \<forall>m. median_of ev = Some m \<longrightarrow>
               rttMinEstimate \<le> m \<and> m \<le> rttMaxEstimate"
    by simp
  from requestTTL_clamp [OF r this] r m show ?thesis by simp
qed


end
